theory Spec2Isabelle
  imports Complex_Main "HOL-Library.Log_Nat"
begin

section \<open>Ping Pong: the simulation engine of ping\_pong\_game.py\<close>

text \<open>
  The embedding follows \<^verbatim>\<open>ping_pong_game.py\<close> function by function. Python floats are
  idealised as \<^typ>\<open>real\<close> numbers (exact arithmetic); the one place where rounding decides
  the behaviour, the folding loop of \<^verbatim>\<open>CPU.update\<close>, is parametrised by the way the
  subtraction is evaluated, and studied a second time under IEEE double rounding.
  Python ints that count (scores, menu indices) are \<^typ>\<open>int\<close>. Exceptions are values of
  the type \<open>error\<close>. Calls to \<^verbatim>\<open>random\<close> read successive draws from a stream that
  is part of the state. Drawing and fonts are not modelled; colours are kept only where a
  constructor stores them.
\<close>

subsection \<open>Constants\<close>

definition WIDTH :: real where "WIDTH = 1000"
definition HEIGHT :: real where "HEIGHT = 600"
definition PADDLE_WIDTH :: real where "PADDLE_WIDTH = 14"
definition PADDLE_HEIGHT :: real where "PADDLE_HEIGHT = 110"
definition BALL_RADIUS :: real where "BALL_RADIUS = 10"
definition WIN_SCORE :: int where "WIN_SCORE = 7"

type_synonym colour = "nat \<times> nat \<times> nat"

definition WHITE :: colour where "WHITE = (245, 245, 245)"
definition ACCENT :: colour where "ACCENT = (50, 200, 255)"

definition POWERUP_SIZE :: real where "POWERUP_SIZE = 20"
definition POWERUP_DURATION :: real where "POWERUP_DURATION = 6"
definition POWERUP_SPAWN_INTERVAL :: real where "POWERUP_SPAWN_INTERVAL = 8"

definition BALL_BASE_SPEED :: real where "BALL_BASE_SPEED = 380"
definition PADDLE_SPEED :: real where "PADDLE_SPEED = 420"

text \<open>\<^verbatim>\<open>math.radians(60)\<close>.\<close>

definition CPU_MAX_ANGLE :: real where "CPU_MAX_ANGLE = 60 * pi / 180"

subsection \<open>Helpers and library operations\<close>

datatype error = ZeroDivisionError | ValueError | NonTermination

definition ebind :: "error + 'a \<Rightarrow> ('a \<Rightarrow> error + 'b) \<Rightarrow> error + 'b" where
  "ebind m f = (case m of Inl e \<Rightarrow> Inl e | Inr a \<Rightarrow> f a)"

definition clamp :: "real \<Rightarrow> real \<Rightarrow> real \<Rightarrow> real" where
  "clamp x a b = max a (min b x)"

text \<open>Python's float division raises on a zero divisor.\<close>

definition fdiv :: "real \<Rightarrow> real \<Rightarrow> error + real" where
  "fdiv a b = (if b = 0 then Inl ZeroDivisionError else Inr (a / b))"

text \<open>\<^verbatim>\<open>int(x)\<close> on a float, and the conversion of a float argument of
  \<^verbatim>\<open>pygame.Rect\<close>: truncation toward zero.\<close>

definition py_int :: "real \<Rightarrow> int" where
  "py_int x = (if 0 \<le> x then \<lfloor>x\<rfloor> else \<lceil>x\<rceil>)"

type_synonym vec2 = "real \<times> real"

definition vlength :: "vec2 \<Rightarrow> real" where
  "vlength v = sqrt (fst v * fst v + snd v * snd v)"

definition vscale :: "vec2 \<Rightarrow> real \<Rightarrow> vec2" where
  "vscale v k = (fst v * k, snd v * k)"

definition vadd :: "vec2 \<Rightarrow> vec2 \<Rightarrow> vec2" where
  "vadd u v = (fst u + fst v, snd u + snd v)"

text \<open>\<^verbatim>\<open>Vector2.normalize()\<close> raises ValueError on the zero vector.\<close>

definition normalize :: "vec2 \<Rightarrow> error + vec2" where
  "normalize v = (if vlength v = 0 then Inl ValueError
                  else Inr (fst v / vlength v, snd v / vlength v))"

text \<open>\<^verbatim>\<open>pygame.Rect\<close>: integer left, top, width, height.\<close>

record rect =
  r_x :: int
  r_y :: int
  r_w :: int
  r_h :: int

definition Rect :: "real \<Rightarrow> real \<Rightarrow> real \<Rightarrow> real \<Rightarrow> rect" where
  "Rect l t w h = \<lparr>r_x = py_int l, r_y = py_int t, r_w = py_int w, r_h = py_int h\<rparr>"

text \<open>Assigning \<^verbatim>\<open>r.center\<close> and \<^verbatim>\<open>r.centery\<close>: the size is kept, the corner moves.\<close>

definition set_center :: "rect \<Rightarrow> real \<Rightarrow> real \<Rightarrow> rect" where
  "set_center r cx cy = r\<lparr>r_x := py_int cx - r_w r div 2, r_y := py_int cy - r_h r div 2\<rparr>"

definition set_centery :: "rect \<Rightarrow> int \<Rightarrow> rect" where
  "set_centery r cy = r\<lparr>r_y := cy - r_h r div 2\<rparr>"

definition colliderect :: "rect \<Rightarrow> rect \<Rightarrow> bool" where
  "colliderect a b =
     (if r_w a = 0 \<or> r_h a = 0 \<or> r_w b = 0 \<or> r_h b = 0 then False
      else min (r_x a) (r_x a + r_w a) < max (r_x b) (r_x b + r_w b)
         \<and> min (r_y a) (r_y a + r_h a) < max (r_y b) (r_y b + r_h b)
         \<and> max (r_x a) (r_x a + r_w a) > min (r_x b) (r_x b + r_w b)
         \<and> max (r_y a) (r_y a + r_h a) > min (r_y b) (r_y b + r_h b))"

text \<open>\<^verbatim>\<open>random.uniform(a, b)\<close> is \<open>a + (b - a) * u\<close> for a draw \<open>u\<close> of the unit interval;
  \<^verbatim>\<open>random.choice(seq)\<close> picks the element at the scaled draw.\<close>

definition uniform :: "real \<Rightarrow> real \<Rightarrow> real \<Rightarrow> real" where
  "uniform a b u = a + (b - a) * u"

definition choice_index :: "nat \<Rightarrow> real \<Rightarrow> nat" where
  "choice_index n u = min (n - 1) (nat \<lfloor>u * real n\<rfloor>)"

subsection \<open>Particle\<close>

record particle =
  pt_pos :: vec2
  pt_vel :: vec2
  pt_ttl :: real
  pt_max_ttl :: real
  pt_color :: colour

definition Particle :: "vec2 \<Rightarrow> vec2 \<Rightarrow> real \<Rightarrow> colour \<Rightarrow> particle" where
  "Particle pos vel ttl color =
     \<lparr>pt_pos = pos, pt_vel = vel, pt_ttl = ttl, pt_max_ttl = ttl, pt_color = color\<rparr>"

definition Particle_update :: "real \<Rightarrow> particle \<Rightarrow> particle" where
  "Particle_update dt p = p\<lparr>pt_pos := vadd (pt_pos p) (vscale (pt_vel p) dt), pt_ttl := pt_ttl p - dt\<rparr>"

subsection \<open>PowerUp\<close>

datatype powerup_type = speed_boost | slow_ball | big_paddle | multi_ball

definition TYPES :: "powerup_type list" where
  "TYPES = [speed_boost, slow_ball, big_paddle, multi_ball]"

record powerup =
  pu_type :: powerup_type
  pu_pos :: vec2
  pu_rect :: rect
  pu_ttl :: real

text \<open>\<^verbatim>\<open>PowerUp(pos=None)\<close>: three draws, for the type and the two coordinates.\<close>

definition PowerUp :: "real \<Rightarrow> real \<Rightarrow> real \<Rightarrow> powerup" where
  "PowerUp u0 u1 u2 =
     (let pos = (uniform 200 (WIDTH - 200) u1, uniform 120 (HEIGHT - 120) u2)
      in \<lparr>pu_type = TYPES ! choice_index (length TYPES) u0,
          pu_pos = pos,
          pu_rect = Rect (fst pos - POWERUP_SIZE / 2) (snd pos - POWERUP_SIZE / 2)
                         POWERUP_SIZE POWERUP_SIZE,
          pu_ttl = 10\<rparr>)"

definition PowerUp_update :: "real \<Rightarrow> powerup \<Rightarrow> powerup" where
  "PowerUp_update dt pu = pu\<lparr>pu_ttl := pu_ttl pu - dt\<rparr>"

subsection \<open>Paddle\<close>

record paddle =
  pd_x :: real
  pd_y :: real
  pd_w :: real
  pd_h :: real
  pd_rect :: rect
  pd_vel :: real
  pd_speed :: real
  pd_color :: colour
  pd_original_h :: real

definition Paddle :: "real \<Rightarrow> real \<Rightarrow> real \<Rightarrow> paddle" where
  "Paddle x y h =
     \<lparr>pd_x = x, pd_y = y, pd_w = PADDLE_WIDTH, pd_h = h,
      pd_rect = Rect (x - PADDLE_WIDTH / 2) (y - h / 2) PADDLE_WIDTH h,
      pd_vel = 0, pd_speed = PADDLE_SPEED, pd_color = WHITE, pd_original_h = h\<rparr>"

definition Paddle_update :: "real \<Rightarrow> paddle \<Rightarrow> paddle" where
  "Paddle_update dt p =
     (let y1 = pd_y p + pd_vel p * dt;
          halfh = pd_h p / 2;
          y2 = clamp y1 (halfh + 8) (HEIGHT - halfh - 8)
      in p\<lparr>pd_y := y2, pd_rect := set_centery (pd_rect p) (py_int y2)\<rparr>)"

definition set_height :: "real \<Rightarrow> paddle \<Rightarrow> paddle" where
  "set_height new_h p =
     p\<lparr>pd_h := new_h,
       pd_rect := Rect (pd_x p - pd_w p / 2) (pd_y p - new_h / 2) (pd_w p) new_h\<rparr>"

definition Paddle_reset :: "paddle \<Rightarrow> paddle" where
  "Paddle_reset p = set_height (pd_original_h p) p"

subsection \<open>Ball\<close>

record ball =
  b_pos :: vec2
  b_radius :: real
  b_vel :: vec2
  b_speed :: real
  b_color :: colour
  b_slow_factor :: real

definition Ball :: "real \<Rightarrow> real \<Rightarrow> ball" where
  "Ball x y = \<lparr>b_pos = (x, y), b_radius = BALL_RADIUS, b_vel = (0, 0),
               b_speed = BALL_BASE_SPEED, b_color = ACCENT, b_slow_factor = 1\<rparr>"

definition launch :: "real \<Rightarrow> real \<Rightarrow> ball \<Rightarrow> error + ball" where
  "launch direction angle b =
     ebind (normalize (cos angle * direction, sin angle))
       (\<lambda>n. Inr (b\<lparr>b_vel := vscale n (b_speed b)\<rparr>))"

definition Ball_update :: "real \<Rightarrow> ball \<Rightarrow> ball" where
  "Ball_update dt b =
     (let pos = vadd (b_pos b) (vscale (vscale (b_vel b) dt) (b_slow_factor b))
      in if snd pos - b_radius b \<le> 0
         then b\<lparr>b_pos := (fst pos, b_radius b), b_vel := (fst (b_vel b), snd (b_vel b) * (- 1))\<rparr>
         else if snd pos + b_radius b \<ge> HEIGHT
         then b\<lparr>b_pos := (fst pos, HEIGHT - b_radius b),
                b_vel := (fst (b_vel b), snd (b_vel b) * (- 1))\<rparr>
         else b\<lparr>b_pos := pos\<rparr>)"

definition Ball_rect :: "ball \<Rightarrow> rect" where
  "Ball_rect b = Rect (fst (b_pos b) - b_radius b) (snd (b_pos b) - b_radius b)
                      (b_radius b * 2) (b_radius b * 2)"

subsection \<open>Random source\<close>

text \<open>The generator: a stream of unit draws and the position of the next one.\<close>

type_synonym randsrc = "(nat \<Rightarrow> real) \<times> nat"

definition random :: "randsrc \<Rightarrow> real \<times> randsrc" where
  "random r = (fst r (snd r), (fst r, Suc (snd r)))"

subsection \<open>CPU\<close>

datatype difficulty = Easy | Medium | Hard

record cpu =
  cpu_difficulty :: difficulty
  cpu_reaction :: real
  cpu_error :: real

definition CPU :: "difficulty \<Rightarrow> cpu" where
  "CPU d = \<lparr>cpu_difficulty = d,
            cpu_reaction = (case d of Easy \<Rightarrow> 0.22 | Medium \<Rightarrow> 0.12 | Hard \<Rightarrow> 0.06),
            cpu_error = (case d of Easy \<Rightarrow> 0.14 | Medium \<Rightarrow> 0.08 | Hard \<Rightarrow> 0.03)\<rparr>"

text \<open>
  The folding loop of \<^verbatim>\<open>CPU.update\<close>. \<open>sub\<close> is the subtraction that evaluates
  \<^verbatim>\<open>2*HEIGHT - predicted\<close>. The loop may run forever: not returning is \<open>None\<close>.
\<close>

partial_function (option) reflect :: "(real \<Rightarrow> real \<Rightarrow> real) \<Rightarrow> real \<Rightarrow> real option" where
  "reflect sub predicted =
     (if predicted < 0 \<or> predicted > HEIGHT
      then (if predicted < 0 then reflect sub (- predicted)
            else if predicted > HEIGHT then reflect sub (sub (2 * HEIGHT) predicted)
            else reflect sub predicted)
      else Some predicted)"

text \<open>\<^verbatim>\<open>CPU.update\<close>, on the paddle the controller holds. The argument \<open>dt\<close> is unused, as
  in the source.\<close>

definition CPU_update ::
  "(real \<Rightarrow> real \<Rightarrow> real) \<Rightarrow> cpu \<Rightarrow> paddle \<Rightarrow> ball \<Rightarrow> real \<Rightarrow> randsrc \<Rightarrow> error + (paddle \<times> randsrc)" where
  "CPU_update sub c p b dt rs =
     ebind
       (if fst (b_vel b) > 0 \<and> pd_x p > WIDTH / 2 \<or> fst (b_vel b) < 0 \<and> pd_x p < WIDTH / 2
        then ebind (fdiv (pd_x p - fst (b_pos b)) (fst (b_vel b) + 1 / 1000000))
               (\<lambda>q. let t = \<bar>q\<bar>; predicted = snd (b_pos b) + snd (b_vel b) * t
                    in case reflect sub predicted of
                         None \<Rightarrow> Inl NonTermination
                       | Some pr \<Rightarrow>
                           (let (u, rs') = random rs
                            in Inr (pr + uniform (- cpu_error c) (cpu_error c) u * HEIGHT, rs')))
        else Inr (pd_y p, rs))
       (\<lambda>(target_y, rs').
          let diff = target_y - pd_y p
          in Inr (p\<lparr>pd_vel := clamp (diff * (1 / max (cpu_reaction c) (1 / 1000000)))
                                    (- pd_speed p) (pd_speed p)\<rparr>, rs'))"

subsection \<open>Game\<close>

datatype mode = OneP | TwoP

datatype key = K_UP | K_DOWN | K_RETURN | K_p | K_r | K_ESCAPE | K_w | K_s | K_other

text \<open>\<open>USEREVENT n\<close> is the event type \<^verbatim>\<open>pygame.USEREVENT+n\<close>.\<close>

datatype event = QUIT | KEYDOWN key | KEYUP key | USEREVENT nat | OTHER

record game =
  left_paddle :: paddle
  right_paddle :: paddle
  ball :: ball
  extra_balls :: "ball list"
  mode :: mode
  cpu :: cpu
  score_l :: int
  score_r :: int
  paused :: bool
  running :: bool
  serve_dir :: int
  serve_ready :: bool
  last_point_time :: real
  particles :: "particle list"
  shake :: real
  powerups :: "powerup list"
  time_since_power :: real
  menu_active :: bool
  menu_selection :: int
  difficulty_selection :: int
  timers :: "nat \<Rightarrow> int"
  rand :: randsrc

text \<open>\<^verbatim>\<open>Game.__init__\<close>; \<open>timers n\<close> is the interval in milliseconds that
  \<^verbatim>\<open>pygame.time.set_timer(pygame.USEREVENT+n, ...)\<close> was last given, 0 when off.\<close>

definition Game :: "randsrc \<Rightarrow> game" where
  "Game rs =
     (let (u, rs') = random rs
      in \<lparr>left_paddle = Paddle 36 (HEIGHT / 2) PADDLE_HEIGHT,
          right_paddle = Paddle (WIDTH - 36) (HEIGHT / 2) PADDLE_HEIGHT,
          ball = Ball (WIDTH / 2) (HEIGHT / 2),
          extra_balls = [],
          mode = OneP,
          cpu = CPU Medium,
          score_l = 0,
          score_r = 0,
          paused = False,
          running = True,
          serve_dir = [- 1, 1] ! choice_index 2 u,
          serve_ready = True,
          last_point_time = 0,
          particles = [],
          shake = 0,
          powerups = [],
          time_since_power = 0,
          menu_active = True,
          menu_selection = 0,
          difficulty_selection = 1,
          timers = (\<lambda>_. 0),
          rand = rs'\<rparr>)"

definition set_timer :: "nat \<Rightarrow> int \<Rightarrow> game \<Rightarrow> game" where
  "set_timer n ms s = s\<lparr>timers := (timers s)(n := ms)\<rparr>"

definition reset_entities :: "game \<Rightarrow> game" where
  "reset_entities s =
     s\<lparr>left_paddle := Paddle_reset ((left_paddle s)\<lparr>pd_y := HEIGHT / 2\<rparr>),
       right_paddle := Paddle_reset ((right_paddle s)\<lparr>pd_y := HEIGHT / 2\<rparr>),
       ball := Ball (WIDTH / 2) (HEIGHT / 2),
       extra_balls := [],
       serve_ready := True\<rparr>"

definition spawn_powerup :: "game \<Rightarrow> game" where
  "spawn_powerup s =
     (let (u0, r0) = random (rand s); (u1, r1) = random r0; (u2, r2) = random r1
      in s\<lparr>powerups := powerups s @ [PowerUp u0 u1 u2], rand := r2\<rparr>)"

primrec create_particles :: "nat \<Rightarrow> vec2 \<Rightarrow> colour \<Rightarrow> game \<Rightarrow> game" where
  "create_particles 0 pos color s = s"
| "create_particles (Suc count) pos color s =
     (let (u0, r0) = random (rand s); (u1, r1) = random r0; (u2, r2) = random r1;
          ang = uniform 0 (pi * 2) u0;
          speed = uniform 60 380 u1;
          v = (cos ang * speed, sin ang * speed)
      in create_particles count pos color
           (s\<lparr>particles := particles s @ [Particle pos v (uniform 0.35 0.9 u2) color],
              rand := r2\<rparr>))"

subsection \<open>Collisions\<close>

text \<open>The loop of \<^verbatim>\<open>handle_collisions\<close> over the two paddles; the first paddle hit returns.\<close>

fun collide_paddles :: "(paddle \<times> int) list \<Rightarrow> ball \<Rightarrow> game \<Rightarrow> error + (bool \<times> ball \<times> game)" where
  "collide_paddles [] b s = Inr (False, b, s)"
| "collide_paddles ((paddle, side) # rest) b s =
     (let r = set_center (Rect 0 0 (pd_w paddle) (pd_h paddle)) (pd_x paddle) (pd_y paddle)
      in if colliderect (Ball_rect b) r
         then ebind (fdiv (snd (b_pos b) - pd_y paddle) (pd_h paddle / 2))
           (\<lambda>rel_y0.
              let rel_y = clamp rel_y0 (- 1) 1;
                  angle = rel_y * CPU_MAX_ANGLE;
                  dir_x = (if pd_x paddle < WIDTH / 2 then 1 else - 1);
                  speed_increase = 1.04;
                  b1 = b\<lparr>b_speed := b_speed b * speed_increase\<rparr>
              in ebind (normalize (cos angle * dir_x, sin angle))
                   (\<lambda>n.
                      let b2 = b1\<lparr>b_vel := vscale n (b_speed b1)\<rparr>;
                          b3 = b2\<lparr>b_pos := (pd_x paddle + dir_x * (pd_w paddle / 2 + b_radius b2 + 2),
                                            snd (b_pos b2))\<rparr>;
                          s1 = create_particles 12 (b_pos b3) ACCENT s
                      in Inr (True, b3, s1\<lparr>shake := 6\<rparr>)))
         else collide_paddles rest b s)"

definition handle_collisions :: "ball \<Rightarrow> game \<Rightarrow> error + (bool \<times> ball \<times> game)" where
  "handle_collisions b s = collide_paddles [(left_paddle s, - 1), (right_paddle s, 1)] b s"

subsection \<open>Power-up effects\<close>

text \<open>One round of the loop that spawns the extra balls: the angle is drawn before the
  direction, the ball is launched, and only then is its speed assigned.\<close>

definition spawn_extra :: "game \<Rightarrow> error + game" where
  "spawn_extra s =
     (let b = Ball (fst (b_pos (ball s))) (snd (b_pos (ball s)));
          (u0, r0) = random (rand s);
          ang = uniform (- 0.9) 0.9 u0;
          (u1, r1) = random r0
      in ebind (launch (real_of_int ([- 1, 1] ! choice_index 2 u1)) ang b)
           (\<lambda>b1. let b2 = b1\<lparr>b_speed := b_speed (ball s) * 0.9\<rparr>
                 in Inr (s\<lparr>extra_balls := extra_balls s @ [b2], rand := r1\<rparr>)))"

definition apply_powerup :: "powerup \<Rightarrow> int \<Rightarrow> game \<Rightarrow> error + game" where
  "apply_powerup pu ball_owner_side s =
     (case pu_type pu of
        speed_boost \<Rightarrow>
          Inr (set_timer 3 (py_int (POWERUP_DURATION * 1000))
            (if ball_owner_side = - 1
             then s\<lparr>left_paddle := (left_paddle s)\<lparr>pd_speed := pd_speed (left_paddle s) * 1.6\<rparr>\<rparr>
             else s\<lparr>right_paddle := (right_paddle s)\<lparr>pd_speed := pd_speed (right_paddle s) * 1.6\<rparr>\<rparr>))
      | slow_ball \<Rightarrow>
          Inr (set_timer 4 (py_int (POWERUP_DURATION * 1000))
            (s\<lparr>ball := (ball s)\<lparr>b_slow_factor := 0.55\<rparr>\<rparr>))
      | big_paddle \<Rightarrow>
          Inr (set_timer 5 (py_int (POWERUP_DURATION * 1000))
            (if ball_owner_side = - 1
             then s\<lparr>left_paddle := set_height (pd_h (left_paddle s) * 1.6) (left_paddle s)\<rparr>
             else s\<lparr>right_paddle := set_height (pd_h (right_paddle s) * 1.6) (right_paddle s)\<rparr>))
      | multi_ball \<Rightarrow>
          ebind (spawn_extra s) (\<lambda>s1. ebind (spawn_extra s1)
            (\<lambda>s2. Inr (set_timer 6 (py_int (POWERUP_DURATION * 1000)) s2))))"

subsection \<open>Events\<close>

text \<open>The controls: W and S move the left paddle, Up and Down the right one.\<close>

definition menu_keydown :: "key \<Rightarrow> game \<Rightarrow> game" where
  "menu_keydown k s =
     (if k = K_UP then s\<lparr>menu_selection := max 0 (menu_selection s - 1)\<rparr>
      else if k = K_DOWN then s\<lparr>menu_selection := min 3 (menu_selection s + 1)\<rparr>
      else if k = K_RETURN then
        (if menu_selection s = 0
         then s\<lparr>mode := (if mode s = OneP then TwoP else OneP)\<rparr>
         else if menu_selection s = 1
         then (let d = (difficulty_selection s + 1) mod 3
               in s\<lparr>difficulty_selection := d, cpu := CPU ([Easy, Medium, Hard] ! nat d)\<rparr>)
         else if menu_selection s = 2
         then (reset_entities (s\<lparr>menu_active := False\<rparr>))\<lparr>score_l := 0, score_r := 0\<rparr>
         else if menu_selection s = 3
         then s\<lparr>running := False\<rparr>
         else s)
      else s)"

definition play_keydown :: "key \<Rightarrow> game \<Rightarrow> game" where
  "play_keydown k s =
     (if k = K_p then s\<lparr>paused := (\<not> paused s)\<rparr>
      else if k = K_r then (reset_entities s)\<lparr>score_l := 0, score_r := 0, menu_active := True\<rparr>
      else if k = K_ESCAPE then s\<lparr>running := False\<rparr>
      else s)"

definition movement_keys :: "key \<Rightarrow> game \<Rightarrow> game" where
  "movement_keys k s =
     (let s1 = (if k = K_w
                then s\<lparr>left_paddle := (left_paddle s)\<lparr>pd_vel := - pd_speed (left_paddle s)\<rparr>\<rparr>
                else s);
          s2 = (if k = K_s
                then s1\<lparr>left_paddle := (left_paddle s1)\<lparr>pd_vel := pd_speed (left_paddle s1)\<rparr>\<rparr>
                else s1);
          s3 = (if k = K_UP
                then s2\<lparr>right_paddle := (right_paddle s2)\<lparr>pd_vel := - pd_speed (right_paddle s2)\<rparr>\<rparr>
                else s2)
      in if k = K_DOWN
         then s3\<lparr>right_paddle := (right_paddle s3)\<lparr>pd_vel := pd_speed (right_paddle s3)\<rparr>\<rparr>
         else s3)"

fun handle_event :: "event \<Rightarrow> game \<Rightarrow> game" where
  "handle_event QUIT s = s\<lparr>running := False\<rparr>"
| "handle_event (KEYDOWN k) s =
     movement_keys k (if menu_active s then menu_keydown k s else play_keydown k s)"
| "handle_event (KEYUP k) s =
     (let s1 = (if k = K_w \<or> k = K_s
                then s\<lparr>left_paddle := (left_paddle s)\<lparr>pd_vel := 0\<rparr>\<rparr> else s)
      in if k = K_UP \<or> k = K_DOWN
         then s1\<lparr>right_paddle := (right_paddle s1)\<lparr>pd_vel := 0\<rparr>\<rparr> else s1)"
| "handle_event (USEREVENT n) s =
     (if n = 3
      then set_timer 3 0
             (s\<lparr>left_paddle := (left_paddle s)\<lparr>pd_speed := PADDLE_SPEED\<rparr>,
                right_paddle := (right_paddle s)\<lparr>pd_speed := PADDLE_SPEED\<rparr>\<rparr>)
      else if n = 4
      then set_timer 4 0 (s\<lparr>ball := (ball s)\<lparr>b_slow_factor := 1\<rparr>\<rparr>)
      else if n = 5
      then set_timer 5 0
             (s\<lparr>left_paddle := Paddle_reset (left_paddle s),
                right_paddle := Paddle_reset (right_paddle s)\<rparr>)
      else if n = 6
      then set_timer 6 0 (s\<lparr>extra_balls := []\<rparr>)
      else s)"
| "handle_event OTHER s = s"

primrec handle_events :: "event list \<Rightarrow> game \<Rightarrow> game" where
  "handle_events [] s = s"
| "handle_events (e # es) s = handle_events es (handle_event e s)"

subsection \<open>One iteration of the main loop\<close>

text \<open>The body of \<^verbatim>\<open>if not self.paused:\<close> in \<^verbatim>\<open>Game.run\<close>, cut into its steps in the
  order of the source.\<close>

definition spawn_tick :: "real \<Rightarrow> game \<Rightarrow> game" where
  "spawn_tick dt s =
     (let s1 = s\<lparr>time_since_power := time_since_power s + dt\<rparr>
      in if time_since_power s1 \<ge> POWERUP_SPAWN_INTERVAL
         then spawn_powerup (s1\<lparr>time_since_power := 0\<rparr>)
         else s1)"

text \<open>The controller holds the right paddle (\<^verbatim>\<open>CPU(self.right_paddle, ...)\<close>).\<close>

definition cpu_tick :: "real \<Rightarrow> game \<Rightarrow> error + game" where
  "cpu_tick dt s =
     (if mode s = OneP
      then ebind (CPU_update (\<lambda>a b. a - b) (cpu s) (right_paddle s) (ball s) dt (rand s))
             (\<lambda>(p, rs). Inr (s\<lparr>right_paddle := p, rand := rs\<rparr>))
      else Inr s)"

definition paddles_tick :: "real \<Rightarrow> game \<Rightarrow> game" where
  "paddles_tick dt s =
     s\<lparr>left_paddle := Paddle_update dt (left_paddle s),
       right_paddle := Paddle_update dt (right_paddle s)\<rparr>"

definition serve_tick :: "real \<Rightarrow> game \<Rightarrow> error + game" where
  "serve_tick dt s =
     (if serve_ready s
      then (let s1 = s\<lparr>last_point_time := last_point_time s + dt\<rparr>
            in if last_point_time s1 > 0.6
               then (let (u, rs) = random (rand s1);
                         ang = uniform (- 0.45) 0.45 u
                     in ebind (launch (real_of_int (serve_dir s1)) ang (ball s1))
                          (\<lambda>b. Inr (s1\<lparr>ball := b, serve_ready := False, last_point_time := 0,
                                       rand := rs\<rparr>)))
               else Inr s1)
      else Inr s)"

definition balls_tick :: "real \<Rightarrow> game \<Rightarrow> game" where
  "balls_tick dt s =
     s\<lparr>ball := Ball_update dt (ball s), extra_balls := map (Ball_update dt) (extra_balls s)\<rparr>"

fun collide_all :: "ball list \<Rightarrow> game \<Rightarrow> error + (ball list \<times> game)" where
  "collide_all [] s = Inr ([], s)"
| "collide_all (b # bs) s =
     ebind (handle_collisions b s)
       (\<lambda>(hit, b', s'). ebind (collide_all bs s') (\<lambda>(bs', s''). Inr (b' # bs', s'')))"

text \<open>\<^verbatim>\<open>balls\<close> is the primary ball followed by the extra balls; the objects are
  changed in place.\<close>

definition collisions_tick :: "game \<Rightarrow> error + game" where
  "collisions_tick s =
     ebind (handle_collisions (ball s) s)
       (\<lambda>(hit, b', s1). ebind (collide_all (extra_balls s) s1)
          (\<lambda>(bs', s2). Inr (s2\<lparr>ball := b', extra_balls := bs'\<rparr>)))"

definition right_scores :: "game \<Rightarrow> game" where
  "right_scores s =
     (let s1 = create_particles 30 (20, HEIGHT / 2) ACCENT (s\<lparr>score_r := score_r s + 1\<rparr>)
      in s1\<lparr>serve_dir := - 1, serve_ready := True, ball := Ball (WIDTH / 2) (HEIGHT / 2),
            extra_balls := [], last_point_time := 0\<rparr>)"

definition left_scores :: "game \<Rightarrow> game" where
  "left_scores s =
     (let s1 = create_particles 30 (WIDTH - 20, HEIGHT / 2) ACCENT (s\<lparr>score_l := score_l s + 1\<rparr>)
      in s1\<lparr>serve_dir := 1, serve_ready := True, ball := Ball (WIDTH / 2) (HEIGHT / 2),
            extra_balls := [], last_point_time := 0\<rparr>)"

text \<open>The scoring loop, with its \<^verbatim>\<open>break\<close>.\<close>

fun scoring_loop :: "ball list \<Rightarrow> game \<Rightarrow> game" where
  "scoring_loop [] s = s"
| "scoring_loop (b # bs) s =
     (if fst (b_pos b) < - 50 then right_scores s
      else if fst (b_pos b) > WIDTH + 50 then left_scores s
      else scoring_loop bs s)"

definition scoring_tick :: "game \<Rightarrow> game" where
  "scoring_tick s = scoring_loop (ball s # extra_balls s) s"

text \<open>The pickup loop runs over a copy of the list and removes from the original; the
  result is the list of the power-ups that stay.\<close>

fun pickups_loop :: "powerup list \<Rightarrow> real \<Rightarrow> game \<Rightarrow> error + (powerup list \<times> game)" where
  "pickups_loop [] dt s = Inr ([], s)"
| "pickups_loop (pu0 # rest) dt s =
     (let pu = PowerUp_update dt pu0
      in if pu_ttl pu \<le> 0 then pickups_loop rest dt s
         else if colliderect (pu_rect pu) (pd_rect (left_paddle s))
         then ebind (apply_powerup pu (- 1) s) (\<lambda>s1. pickups_loop rest dt s1)
         else if colliderect (pu_rect pu) (pd_rect (right_paddle s))
         then ebind (apply_powerup pu 1 s) (\<lambda>s1. pickups_loop rest dt s1)
         else ebind (pickups_loop rest dt s) (\<lambda>(kept, s1). Inr (pu # kept, s1)))"

definition pickups_tick :: "real \<Rightarrow> game \<Rightarrow> error + game" where
  "pickups_tick dt s =
     ebind (pickups_loop (powerups s) dt s) (\<lambda>(kept, s1). Inr (s1\<lparr>powerups := kept\<rparr>))"

definition particles_tick :: "real \<Rightarrow> game \<Rightarrow> game" where
  "particles_tick dt s =
     s\<lparr>particles := filter (\<lambda>p. \<not> pt_ttl p \<le> 0) (map (Particle_update dt) (particles s)),
       shake := max 0 (shake s - 30 * dt)\<rparr>"

definition check_win :: "game \<Rightarrow> game" where
  "check_win s =
     (if score_l s \<ge> WIN_SCORE \<or> score_r s \<ge> WIN_SCORE
      then s\<lparr>menu_active := True, menu_selection := 0\<rparr>
      else s)"

text \<open>The steps up to the moving of the balls, and the whole update.\<close>

definition advance :: "real \<Rightarrow> game \<Rightarrow> error + game" where
  "advance dt s =
     ebind (cpu_tick dt (spawn_tick dt s))
       (\<lambda>s1. ebind (serve_tick dt (paddles_tick dt s1))
          (\<lambda>s2. Inr (balls_tick dt s2)))"

definition update :: "real \<Rightarrow> game \<Rightarrow> error + game" where
  "update dt s =
     ebind (advance dt s)
       (\<lambda>s1. ebind (collisions_tick s1)
          (\<lambda>s2. ebind (pickups_tick dt (scoring_tick s2))
             (\<lambda>s3. Inr (check_win (particles_tick dt s3)))))"

text \<open>Of the drawing only the two draws of the shake offset are kept.\<close>

definition draw :: "game \<Rightarrow> game" where
  "draw s = (let (ox, r0) = random (rand s); (oy, r1) = random r0 in s\<lparr>rand := r1\<rparr>)"

text \<open>One pass through \<^verbatim>\<open>while self.running\<close>: \<open>dt\<close> is the clock's reading, \<open>evs\<close>
  the events of \<^verbatim>\<open>pygame.event.get()\<close>.\<close>

definition frame :: "real \<Rightarrow> event list \<Rightarrow> game \<Rightarrow> error + game" where
  "frame dt evs s =
     (let s1 = handle_events evs s
      in if menu_active s1 then Inr s1
         else ebind (if \<not> paused s1 then update dt s1 else Inr s1) (\<lambda>s2. Inr (draw s2)))"

subsection \<open>Auxiliary notions and concrete states\<close>

text \<open>The test of the scoring loop: a ball beyond either edge by more than 50 pixels.\<close>

definition out_of_bounds :: "ball \<Rightarrow> bool" where
  "out_of_bounds b = (fst (b_pos b) < - 50 \<or> fst (b_pos b) > WIDTH + 50)"

text \<open>A state in which the primary ball has left on the right and an extra ball on the left.\<close>

definition two_sided_state :: game where
  "two_sided_state =
     (Game (\<lambda>_. 1 / 2, 0))\<lparr>ball := Ball 1051 300, extra_balls := [Ball (- 51) 300]\<rparr>"

text \<open>The box that \<^verbatim>\<open>handle_collisions\<close> builds for a paddle, the paddle it resolves for a
  ball (the left one is tested first), and the quantities of the reflection: the clamped
  offset, the exit direction and the ball after the hit.\<close>

definition paddle_box :: "paddle \<Rightarrow> rect" where
  "paddle_box p = set_center (Rect 0 0 (pd_w p) (pd_h p)) (pd_x p) (pd_y p)"

definition struck :: "game \<Rightarrow> ball \<Rightarrow> paddle option" where
  "struck s b =
     (if colliderect (Ball_rect b) (paddle_box (left_paddle s)) then Some (left_paddle s)
      else if colliderect (Ball_rect b) (paddle_box (right_paddle s)) then Some (right_paddle s)
      else None)"

definition rel_y :: "paddle \<Rightarrow> ball \<Rightarrow> real" where
  "rel_y p b = clamp ((snd (b_pos b) - pd_y p) / (pd_h p / 2)) (- 1) 1"

definition dir_x :: "paddle \<Rightarrow> real" where
  "dir_x p = (if pd_x p < WIDTH / 2 then 1 else - 1)"

definition bounce :: "paddle \<Rightarrow> ball \<Rightarrow> ball" where
  "bounce p b =
     b\<lparr>b_speed := b_speed b * 1.04,
       b_vel := (cos (rel_y p b * CPU_MAX_ANGLE) * dir_x p * (b_speed b * 1.04),
                 sin (rel_y p b * CPU_MAX_ANGLE) * (b_speed b * 1.04)),
       b_pos := (pd_x p + dir_x p * (pd_w p / 2 + b_radius b + 2), snd (b_pos b))\<rparr>"

text \<open>A two-player game in play, and a ball overlapping the left paddle at its centre.\<close>

definition centre_hit_state :: game where
  "centre_hit_state = (Game (\<lambda>_. 1 / 2, 0))\<lparr>mode := TwoP, menu_active := False, serve_ready := False\<rparr>"

definition centre_hit_ball :: ball where
  "centre_hit_ball = Ball 50 300"

text \<open>
  Rallies. An event creates a new ball when its handler calls \<^verbatim>\<open>reset_entities\<close> (start
  from the menu, restart in play); an update creates one when its scoring loop finds a ball
  out of bounds; it counts a hit when the primary ball overlaps a paddle at the collision
  step. \<open>run_frames\<close> is the loop \<^verbatim>\<open>while self.running\<close> over the given clock readings and
  event lists.
\<close>

definition new_ball_event :: "event \<Rightarrow> game \<Rightarrow> bool" where
  "new_ball_event e s =
     (e = KEYDOWN K_RETURN \<and> menu_active s \<and> menu_selection s = 2
      \<or> e = KEYDOWN K_r \<and> \<not> menu_active s)"

primrec events_new_ball :: "event list \<Rightarrow> game \<Rightarrow> bool" where
  "events_new_ball [] s = False"
| "events_new_ball (e # es) s = (new_ball_event e s \<or> events_new_ball es (handle_event e s))"

definition update_scores :: "real \<Rightarrow> game \<Rightarrow> bool" where
  "update_scores dt s =
     (case ebind (advance dt s) collisions_tick of
        Inl _ \<Rightarrow> False
      | Inr s2 \<Rightarrow> find out_of_bounds (ball s2 # extra_balls s2) \<noteq> None)"

definition update_hits :: "real \<Rightarrow> game \<Rightarrow> nat" where
  "update_hits dt s =
     (case advance dt s of
        Inl _ \<Rightarrow> 0
      | Inr s1 \<Rightarrow> if struck s1 (ball s1) = None then 0 else 1)"

definition frame_new_ball :: "real \<Rightarrow> event list \<Rightarrow> game \<Rightarrow> bool" where
  "frame_new_ball dt evs s =
     (events_new_ball evs s \<or>
      (let s1 = handle_events evs s
       in \<not> menu_active s1 \<and> \<not> paused s1 \<and> update_scores dt s1))"

definition frame_hits :: "real \<Rightarrow> event list \<Rightarrow> game \<Rightarrow> nat" where
  "frame_hits dt evs s =
     (let s1 = handle_events evs s
      in if menu_active s1 \<or> paused s1 then 0 else update_hits dt s1)"

fun run_frames :: "(real \<times> event list) list \<Rightarrow> game \<Rightarrow> error + game" where
  "run_frames [] s = Inr s"
| "run_frames ((dt, evs) # fs) s =
     (if running s then ebind (frame dt evs s) (run_frames fs) else Inr s)"

fun rally_hits :: "(real \<times> event list) list \<Rightarrow> game \<Rightarrow> nat" where
  "rally_hits [] s = 0"
| "rally_hits ((dt, evs) # fs) s =
     (if running s
      then frame_hits dt evs s + (case frame dt evs s of Inl _ \<Rightarrow> 0 | Inr s' \<Rightarrow> rally_hits fs s')
      else 0)"

fun no_new_ball :: "(real \<times> event list) list \<Rightarrow> game \<Rightarrow> bool" where
  "no_new_ball [] s = True"
| "no_new_ball ((dt, evs) # fs) s =
     (\<not> running s \<or>
      \<not> frame_new_ball dt evs s \<and>
      (case frame dt evs s of Inl _ \<Rightarrow> True | Inr s' \<Rightarrow> no_new_ball fs s'))"

text \<open>The two-player game in play with the ball of \<open>centre_hit_ball\<close> as its primary ball.\<close>

definition rally_state :: game where
  "rally_state = centre_hit_state\<lparr>ball := centre_hit_ball\<rparr>"

text \<open>Two states with the same scores and the same menu flag.\<close>

definition same_session :: "game \<Rightarrow> game \<Rightarrow> bool" where
  "same_session s s' =
     (score_l s' = score_l s \<and> score_r s' = score_r s \<and> menu_active s' = menu_active s)"

text \<open>Match point for the left player, the ball already beyond the right edge.\<close>

definition match_point_state :: game where
  "match_point_state = rally_state\<lparr>score_l := 6, ball := Ball 1060 300\<rparr>"

text \<open>A big-paddle power-up (the draw 5/8 picks the third type), the state after the left
  paddle has picked up four of them in a row, and a paddle moving up at full speed.\<close>

definition big_paddle_pickup :: powerup where
  "big_paddle_pickup = PowerUp (5 / 8) 0 0"

definition four_big_paddles :: "error + game" where
  "four_big_paddles =
     ebind (apply_powerup big_paddle_pickup (- 1) (Game (\<lambda>_. 1 / 2, 0)))
       (\<lambda>s1. ebind (apply_powerup big_paddle_pickup (- 1) s1)
          (\<lambda>s2. ebind (apply_powerup big_paddle_pickup (- 1) s2)
             (\<lambda>s3. apply_powerup big_paddle_pickup (- 1) s3)))"

definition moving_paddle :: paddle where
  "moving_paddle = (Paddle 36 300 PADDLE_HEIGHT)\<lparr>pd_vel := - 420\<rparr>"

text \<open>A speed-boost power-up, and the state after the left paddle has picked up two.\<close>

definition speed_boost_pickup :: powerup where
  "speed_boost_pickup = PowerUp (1 / 8) 0 0"

definition two_speed_boosts :: "error + game" where
  "two_speed_boosts =
     ebind (apply_powerup speed_boost_pickup (- 1) (Game (\<lambda>_. 1 / 2, 0)))
       (\<lambda>s1. apply_powerup speed_boost_pickup (- 1) s1)"

text \<open>A slow-ball power-up, a game with two extra balls in flight, and that game after the
  pickup.\<close>

definition slow_ball_pickup :: powerup where
  "slow_ball_pickup = PowerUp (3 / 8) 0 0"

definition three_ball_state :: game where
  "three_ball_state =
     rally_state\<lparr>extra_balls := [(Ball 500 300)\<lparr>b_vel := (380, 0)\<rparr>,
                                 (Ball 500 300)\<lparr>b_vel := (- 380, 0)\<rparr>]\<rparr>"

definition slowed_three_balls :: "error + game" where
  "slowed_three_balls = apply_powerup slow_ball_pickup (- 1) three_ball_state"

text \<open>A multi-ball power-up and the fresh game after its pickup, every draw being 1/2.\<close>

definition multi_ball_pickup :: powerup where
  "multi_ball_pickup = PowerUp (7 / 8) 0 0"

definition multi_ball_result :: "error + game" where
  "multi_ball_result = apply_powerup multi_ball_pickup (- 1) (Game (\<lambda>_. 1 / 2, 0))"

text \<open>A paddle on the left side for a controller, and a ball creeping to the left at
  \<open>10^-6\<close> pixels per second.\<close>

definition left_cpu_paddle :: paddle where
  "left_cpu_paddle = Paddle 36 (HEIGHT / 2) PADDLE_HEIGHT"

definition creeping_ball :: ball where
  "creeping_ball = (Ball (WIDTH / 2) (HEIGHT / 2))\<lparr>b_vel := (- (1 / 1000000), 0)\<rparr>"

text \<open>
  IEEE double precision, for the subtraction of the folding loop: \<open>fl\<close> rounds a real to
  the nearest number with a 53-bit significand, ties to even, with the spacing of the
  subnormal range as the finest one (overflow cannot arise in the loop, which never
  increases a magnitude by more than \<open>2 * HEIGHT\<close>); \<open>fl_sub\<close> is the subtraction of two
  doubles. \<open>huge\<close> is the double \<open>2^70\<close>.
\<close>

definition round_even :: "real \<Rightarrow> int" where
  "round_even q =
     (let f = \<lfloor>q\<rfloor>; d = q - of_int f
      in if d < 1 / 2 then f else if d > 1 / 2 then f + 1 else if even f then f else f + 1)"

definition expo :: "real \<Rightarrow> int" where
  "expo x = max (\<lfloor>log 2 \<bar>x\<bar>\<rfloor> - 52) (- 1074)"

definition fl :: "real \<Rightarrow> real" where
  "fl x = (if x = 0 then 0 else of_int (round_even (x / 2 powi expo x)) * 2 powi expo x)"

definition huge :: real where
  "huge = 2 ^ 70"

definition fl_sub :: "real \<Rightarrow> real \<Rightarrow> real" where
  "fl_sub a b = fl (a - b)"

text \<open>The doubles are the values that rounding leaves alone.\<close>

definition is_double :: "real \<Rightarrow> bool" where
  "is_double x = (fl x = x)"

text \<open>A prediction five folds away from the screen.\<close>

definition far_prediction :: real where
  "far_prediction = - 3000"

section \<open>Properties\<close>

subsection \<open>Particles touch nothing but the particle list and the generator\<close>

lemma create_particles_only:
  "create_particles n pos c s =
     s\<lparr>particles := particles (create_particles n pos c s),
       rand := rand (create_particles n pos c s)\<rparr>"
proof (induction n arbitrary: s)
  case 0
  show ?case by simp
next
  case (Suc n)
  show ?case
    by (subst (1) create_particles.simps, subst Suc.IH)
       (simp add: Let_def split: prod.splits)
qed

lemma create_particles_score [simp]:
  "score_l (create_particles n pos c s) = score_l s"
  "score_r (create_particles n pos c s) = score_r s"
  by (subst create_particles_only, simp)+

subsection \<open>Scoring\<close>

lemma right_scores_fields:
  "score_r (right_scores s) = score_r s + 1" "score_l (right_scores s) = score_l s"
  "serve_dir (right_scores s) = - 1" "serve_ready (right_scores s)"
  "ball (right_scores s) = Ball (WIDTH / 2) (HEIGHT / 2)" "extra_balls (right_scores s) = []"
  "last_point_time (right_scores s) = 0"
  by (simp_all add: right_scores_def Let_def)

lemma left_scores_fields:
  "score_l (left_scores s) = score_l s + 1" "score_r (left_scores s) = score_r s"
  "serve_dir (left_scores s) = 1" "serve_ready (left_scores s)"
  "ball (left_scores s) = Ball (WIDTH / 2) (HEIGHT / 2)" "extra_balls (left_scores s) = []"
  "last_point_time (left_scores s) = 0"
  by (simp_all add: left_scores_def Let_def)

lemma scoring_loop_find:
  "scoring_loop bs s =
     (case find out_of_bounds bs of
        None \<Rightarrow> s
      | Some b \<Rightarrow> if fst (b_pos b) < - 50 then right_scores s else left_scores s)"
  by (induction bs) (auto simp: out_of_bounds_def)

text \<open>
  C1 (as amended). The scoring step looks for the first ball, in the order primary then
  extras, that is out of bounds. If there is none the state is unchanged. If that ball is
  left of \<open>-50\<close>, the right score grows by exactly one, the left score is unchanged and the
  serve direction becomes \<open>-1\<close>; otherwise it is right of \<open>WIDTH + 50\<close>, the left score grows
  by exactly one, the right score is unchanged and the serve direction becomes \<open>+1\<close>. In both
  cases the extra balls are dropped, the primary ball is a fresh ball at the centre and the
  serve wait is entered. So one tick counts at most one point.
\<close>

theorem scoring_first_out_of_bounds:
  "(find out_of_bounds (ball s # extra_balls s) = None \<longrightarrow> scoring_tick s = s) \<and>
   (\<forall>b. find out_of_bounds (ball s # extra_balls s) = Some b \<longrightarrow>
      ball (scoring_tick s) = Ball (WIDTH / 2) (HEIGHT / 2) \<and>
      extra_balls (scoring_tick s) = [] \<and>
      serve_ready (scoring_tick s) \<and> last_point_time (scoring_tick s) = 0 \<and>
      (if fst (b_pos b) < - 50
       then score_r (scoring_tick s) = score_r s + 1 \<and> score_l (scoring_tick s) = score_l s \<and>
            serve_dir (scoring_tick s) = - 1
       else fst (b_pos b) > WIDTH + 50 \<and>
            score_l (scoring_tick s) = score_l s + 1 \<and> score_r (scoring_tick s) = score_r s \<and>
            serve_dir (scoring_tick s) = 1))"
  unfolding scoring_tick_def scoring_loop_find
  by (auto simp: right_scores_fields left_scores_fields out_of_bounds_def
           dest: find_Some_iff[THEN iffD1] split: option.splits)

lemma two_sided_find:
  "find out_of_bounds (ball two_sided_state # extra_balls two_sided_state) = Some (Ball 1051 300)"
  by (simp add: two_sided_state_def Game_def Let_def random_def out_of_bounds_def Ball_def WIDTH_def)

theorem scoring_first_out_of_bounds_witness:
  "find out_of_bounds (ball two_sided_state # extra_balls two_sided_state) = Some (Ball 1051 300) \<and>
   score_l (scoring_tick two_sided_state) = score_l two_sided_state + 1 \<and>
   extra_balls (scoring_tick two_sided_state) = []"
  using scoring_first_out_of_bounds [of two_sided_state] two_sided_find
  by (simp add: Ball_def WIDTH_def)

text \<open>
  C1 as stated fails: in \<open>two_sided_state\<close> an active ball is left of \<open>-50\<close>, yet the
  primary ball, found first, is beyond the right edge, so the right score does not move
  and the serve direction becomes \<open>+1\<close>.
\<close>

theorem scoring_any_ball_counterexample:
  "fst (b_pos (extra_balls two_sided_state ! 0)) < - 50 \<and>
   score_r (scoring_tick two_sided_state) = score_r two_sided_state \<and>
   serve_dir (scoring_tick two_sided_state) = 1"
  by (simp add: two_sided_state_def Game_def Let_def random_def Ball_def WIDTH_def
        scoring_tick_def left_scores_fields)

subsection \<open>Paddle hits\<close>

lemma normalize_unit:
  assumes "d = 1 \<or> d = - 1"
  shows "normalize (cos a * d, sin a) = Inr (cos a * d, sin a)"
proof -
  have "(cos a * d) * (cos a * d) + sin a * sin a = (cos a)\<^sup>2 + (sin a)\<^sup>2"
    using assms by (auto simp: power2_eq_square)
  then have "vlength (cos a * d, sin a) = 1"
    by (simp add: vlength_def)
  then show ?thesis by (simp add: normalize_def)
qed

lemma collide_height:
  assumes "colliderect r (paddle_box p)"
  shows "pd_h p \<noteq> 0"
proof
  assume "pd_h p = 0"
  then have "r_h (paddle_box p) = 0"
    by (simp add: paddle_box_def set_center_def Rect_def py_int_def)
  with assms show False by (simp add: colliderect_def)
qed

lemma normalize_cos_sin [simp]:
  "normalize (cos a, sin a) = Inr (cos a, sin a)"
  "normalize (- cos a, sin a) = Inr (- cos a, sin a)"
  using normalize_unit[of 1 a] normalize_unit[of "- 1" a] by simp_all

lemma collide_paddles_hit:
  assumes "colliderect (Ball_rect b) (paddle_box p)"
  shows "collide_paddles ((p, side) # rest) b s =
           Inr (True, bounce p b, (create_particles 12 (b_pos (bounce p b)) ACCENT s)\<lparr>shake := 6\<rparr>)"
proof -
  have h: "pd_h p \<noteq> 0" using assms by (rule collide_height)
  show ?thesis
    using assms h
    by (simp add: paddle_box_def[symmetric] fdiv_def ebind_def Let_def
          rel_y_def dir_x_def bounce_def vscale_def)
qed

lemma collide_paddles_miss:
  assumes "\<not> colliderect (Ball_rect b) (paddle_box p)"
  shows "collide_paddles ((p, side) # rest) b s = collide_paddles rest b s"
  using assms by (simp add: paddle_box_def Let_def)

lemma handle_collisions_struck:
  "handle_collisions b s =
     (case struck s b of
        None \<Rightarrow> Inr (False, b, s)
      | Some p \<Rightarrow> Inr (True, bounce p b,
                       (create_particles 12 (b_pos (bounce p b)) ACCENT s)\<lparr>shake := 6\<rparr>))"
  by (simp add: handle_collisions_def struck_def collide_paddles_hit collide_paddles_miss
        del: collide_paddles.simps(2))

lemma cos_exit_angle:
  assumes "- 1 \<le> r" "r \<le> 1"
  shows "1 / 2 \<le> cos (r * CPU_MAX_ANGLE)"
proof -
  have a: "\<bar>r * CPU_MAX_ANGLE\<bar> \<le> pi / 3"
  proof -
    have "\<bar>r * CPU_MAX_ANGLE\<bar> = \<bar>r\<bar> * (pi / 3)"
      by (simp add: CPU_MAX_ANGLE_def abs_mult)
    also have "\<dots> \<le> 1 * (pi / 3)"
      using assms by (intro mult_right_mono) auto
    finally show ?thesis by simp
  qed
  have "cos (pi / 3) \<le> cos \<bar>r * CPU_MAX_ANGLE\<bar>"
    using a by (intro cos_monotone_0_pi_le) auto
  then show ?thesis by (simp add: cos_60)
qed

lemma rel_y_range: "- 1 \<le> rel_y p b \<and> rel_y p b \<le> 1"
  by (simp add: rel_y_def clamp_def)

text \<open>
  C2. When a ball overlaps a paddle, \<^verbatim>\<open>handle_collisions\<close> succeeds and reports a hit. With
  \<open>relY = clamp((ball.y - paddle.y) / (paddle.h / 2), -1, 1)\<close>, the new velocity is the new
  speed times \<open>(d * cos (relY * 60 degrees), sin (relY * 60 degrees))\<close>, where \<open>d\<close> is \<open>+1\<close>
  if the struck paddle's x is left of the middle of the field and \<open>-1\<close> otherwise, whichever
  paddle was struck. The cosine is at least one half, so the horizontal direction is \<open>d\<close>.
  A centre hit leaves at angle 0, a hit at either edge at 60 degrees up or down.
\<close>

theorem paddle_hit_exit_angle:
  assumes "struck s b = Some p"
  shows "pd_h p \<noteq> 0 \<and>
         (\<exists>b' s'. handle_collisions b s = Inr (True, b', s') \<and>
           b_speed b' = b_speed b * 1.04 \<and>
           b_vel b' = (b_speed b' * (dir_x p * cos (rel_y p b * (60 * pi / 180))),
                       b_speed b' * sin (rel_y p b * (60 * pi / 180))) \<and>
           1 / 2 \<le> cos (rel_y p b * (60 * pi / 180)) \<and>
           (rel_y p b = 0 \<longrightarrow> b_vel b' = (b_speed b' * dir_x p, 0)) \<and>
           (rel_y p b = 1 \<longrightarrow> b_vel b' = (b_speed b' * (dir_x p * cos (pi / 3)), b_speed b' * sin (pi / 3))) \<and>
           (rel_y p b = - 1 \<longrightarrow> b_vel b' = (b_speed b' * (dir_x p * cos (pi / 3)), b_speed b' * (- sin (pi / 3)))))"
proof -
  have h: "pd_h p \<noteq> 0"
    using assms by (auto simp: struck_def dest: collide_height split: if_splits)
  have c: "1 / 2 \<le> cos (rel_y p b * (60 * pi / 180))"
    using cos_exit_angle[of "rel_y p b"] rel_y_range[of p b] by (simp add: CPU_MAX_ANGLE_def)
  show ?thesis
    using assms c h
    by (simp add: handle_collisions_struck bounce_def CPU_MAX_ANGLE_def mult_ac)
qed

lemma centre_hit_struck:
  "struck centre_hit_state centre_hit_ball = Some (left_paddle centre_hit_state)"
  by (simp add: struck_def centre_hit_state_def centre_hit_ball_def Game_def Let_def random_def
        Ball_def Ball_rect_def paddle_box_def Paddle_def Rect_def set_center_def py_int_def
        colliderect_def HEIGHT_def WIDTH_def PADDLE_WIDTH_def PADDLE_HEIGHT_def BALL_RADIUS_def)

theorem paddle_hit_exit_angle_witness:
  "struck centre_hit_state centre_hit_ball = Some (left_paddle centre_hit_state) \<and>
   rel_y (left_paddle centre_hit_state) centre_hit_ball = 0 \<and>
   (\<exists>b' s'. handle_collisions centre_hit_ball centre_hit_state = Inr (True, b', s') \<and>
      b_vel b' = (380 * 1.04, 0))"
proof -
  have r: "rel_y (left_paddle centre_hit_state) centre_hit_ball = 0"
    by (simp add: rel_y_def centre_hit_state_def centre_hit_ball_def Game_def Let_def random_def
        Ball_def Paddle_def clamp_def HEIGHT_def)
  have d: "dir_x (left_paddle centre_hit_state) = 1"
    by (simp add: dir_x_def centre_hit_state_def Game_def Let_def random_def Paddle_def WIDTH_def)
  have sp: "b_speed centre_hit_ball = 380"
    by (simp add: centre_hit_ball_def Ball_def BALL_BASE_SPEED_def)
  from paddle_hit_exit_angle [OF centre_hit_struck] r d sp centre_hit_struck
  show ?thesis by auto
qed

subsection \<open>Ball speed within a rally\<close>

lemma create_particles_fields [simp]:
  "left_paddle (create_particles n pos c s) = left_paddle s"
  "right_paddle (create_particles n pos c s) = right_paddle s"
  "ball (create_particles n pos c s) = ball s"
  "extra_balls (create_particles n pos c s) = extra_balls s"
  "mode (create_particles n pos c s) = mode s"
  "cpu (create_particles n pos c s) = cpu s"
  "paused (create_particles n pos c s) = paused s"
  "running (create_particles n pos c s) = running s"
  "serve_dir (create_particles n pos c s) = serve_dir s"
  "serve_ready (create_particles n pos c s) = serve_ready s"
  "last_point_time (create_particles n pos c s) = last_point_time s"
  "shake (create_particles n pos c s) = shake s"
  "powerups (create_particles n pos c s) = powerups s"
  "time_since_power (create_particles n pos c s) = time_since_power s"
  "menu_active (create_particles n pos c s) = menu_active s"
  "menu_selection (create_particles n pos c s) = menu_selection s"
  "difficulty_selection (create_particles n pos c s) = difficulty_selection s"
  "timers (create_particles n pos c s) = timers s"
  by (subst create_particles_only, simp)+

lemma ebind_Inr_iff: "ebind m f = Inr y \<longleftrightarrow> (\<exists>x. m = Inr x \<and> f x = Inr y)"
  by (cases m) (simp_all add: ebind_def)

lemma ebind_Inr [simp]: "ebind (Inr x) f = f x"
  by (simp add: ebind_def)

lemma ebind_Inl [simp]: "ebind (Inl e) f = Inl e"
  by (simp add: ebind_def)

lemma launch_speed: "launch d a b = Inr b' \<Longrightarrow> b_speed b' = b_speed b"
  by (auto simp: launch_def ebind_Inr_iff)

lemma Ball_update_speed [simp]: "b_speed (Ball_update dt b) = b_speed b"
  by (simp add: Ball_update_def Let_def)

lemma handle_event_speed:
  "\<not> new_ball_event e s \<Longrightarrow> b_speed (ball (handle_event e s)) = b_speed (ball s)"
  by (cases e)
     (auto simp: new_ball_event_def menu_keydown_def play_keydown_def movement_keys_def Let_def
        set_timer_def)

lemma handle_events_speed:
  "\<not> events_new_ball evs s \<Longrightarrow> b_speed (ball (handle_events evs s)) = b_speed (ball s)"
  by (induction evs arbitrary: s) (simp_all add: handle_event_speed)

lemma spawn_tick_ball [simp]: "ball (spawn_tick dt s) = ball s"
  by (simp add: spawn_tick_def spawn_powerup_def Let_def split: prod.splits)

lemma cpu_tick_ball: "cpu_tick dt s = Inr s' \<Longrightarrow> ball s' = ball s"
  by (auto simp: cpu_tick_def ebind_Inr_iff split: if_splits)

lemma paddles_tick_ball [simp]: "ball (paddles_tick dt s) = ball s"
  by (simp add: paddles_tick_def)

lemma serve_tick_speed: "serve_tick dt s = Inr s' \<Longrightarrow> b_speed (ball s') = b_speed (ball s)"
  by (auto simp: serve_tick_def Let_def ebind_Inr_iff split: if_splits prod.splits
           dest: launch_speed)

lemma advance_speed:
  assumes "advance dt s = Inr s'"
  shows "b_speed (ball s') = b_speed (ball s)"
proof -
  from assms obtain s1 s2 where
    a: "cpu_tick dt (spawn_tick dt s) = Inr s1" and
    b: "serve_tick dt (paddles_tick dt s1) = Inr s2" and
    c: "s' = balls_tick dt s2"
    by (auto simp: advance_def ebind_Inr_iff)
  have "b_speed (ball s') = b_speed (ball s2)" using c by (simp add: balls_tick_def)
  also have "\<dots> = b_speed (ball s1)" using serve_tick_speed[OF b] by simp
  also have "\<dots> = b_speed (ball s)" using cpu_tick_ball[OF a] by simp
  finally show ?thesis .
qed

lemma collisions_tick_speed:
  assumes "collisions_tick s = Inr s'"
  shows "b_speed (ball s') = b_speed (ball s) * 1.04 ^ (if struck s (ball s) = None then 0 else 1)"
  using assms
  by (auto simp: collisions_tick_def handle_collisions_struck ebind_Inr_iff bounce_def
           split: option.splits)

lemma spawn_extra_ball: "spawn_extra s = Inr s' \<Longrightarrow> ball s' = ball s"
  by (auto simp: spawn_extra_def Let_def ebind_Inr_iff split: prod.splits)

lemma apply_powerup_speed:
  "apply_powerup pu side s = Inr s' \<Longrightarrow> b_speed (ball s') = b_speed (ball s)"
  by (cases "pu_type pu")
     (auto simp: apply_powerup_def set_timer_def ebind_Inr_iff dest!: spawn_extra_ball
           split: if_splits)

lemma pickups_loop_speed:
  "pickups_loop pus dt s = Inr (kept, s') \<Longrightarrow> b_speed (ball s') = b_speed (ball s)"
proof (induction pus arbitrary: s kept)
  case Nil
  then show ?case by simp
next
  case (Cons pu pus)
  then show ?case
    by (fastforce simp: Let_def ebind_Inr_iff split: if_splits dest: apply_powerup_speed)
qed

lemma pickups_tick_speed:
  "pickups_tick dt s = Inr s' \<Longrightarrow> b_speed (ball s') = b_speed (ball s)"
  by (auto simp: pickups_tick_def ebind_Inr_iff dest: pickups_loop_speed)

lemma scoring_tick_none:
  "find out_of_bounds (ball s # extra_balls s) = None \<Longrightarrow> scoring_tick s = s"
  by (simp add: scoring_tick_def scoring_loop_find)

lemma check_win_ball [simp]: "ball (check_win s) = ball s"
  by (simp add: check_win_def)

lemma particles_tick_ball [simp]: "ball (particles_tick dt s) = ball s"
  by (simp add: particles_tick_def)

lemma draw_ball [simp]: "ball (draw s) = ball s"
  by (simp add: draw_def Let_def split: prod.splits)

lemma update_speed:
  assumes "update dt s = Inr s'" and "\<not> update_scores dt s"
  shows "b_speed (ball s') = b_speed (ball s) * 1.04 ^ update_hits dt s"
proof -
  from assms(1) obtain s1 s2 s3 where
    a: "advance dt s = Inr s1" and
    b: "collisions_tick s1 = Inr s2" and
    c: "pickups_tick dt (scoring_tick s2) = Inr s3" and
    d: "s' = check_win (particles_tick dt s3)"
    by (auto simp: update_def ebind_Inr_iff)
  from assms(2) a b have "find out_of_bounds (ball s2 # extra_balls s2) = None"
    by (simp add: update_scores_def)
  then have e: "scoring_tick s2 = s2" by (rule scoring_tick_none)
  have "b_speed (ball s') = b_speed (ball s3)" using d by simp
  also have "\<dots> = b_speed (ball s2)" using pickups_tick_speed[OF c] e by simp
  also have "\<dots> = b_speed (ball s1) * 1.04 ^ (if struck s1 (ball s1) = None then 0 else 1)"
    by (rule collisions_tick_speed[OF b])
  also have "\<dots> = b_speed (ball s) * 1.04 ^ update_hits dt s"
    using a advance_speed[OF a] by (simp add: update_hits_def)
  finally show ?thesis .
qed

lemma frame_speed:
  assumes "frame dt evs s = Inr s'" and "\<not> frame_new_ball dt evs s"
  shows "b_speed (ball s') = b_speed (ball s) * 1.04 ^ frame_hits dt evs s"
proof -
  let ?s1 = "handle_events evs s"
  have e: "b_speed (ball ?s1) = b_speed (ball s)"
    using assms(2) by (simp add: frame_new_ball_def handle_events_speed)
  show ?thesis
  proof (cases "menu_active ?s1 \<or> paused ?s1")
    case True
    then show ?thesis
      using assms(1) e by (auto simp: frame_def frame_hits_def Let_def split: if_splits)
  next
    case False
    with assms(1) obtain s2 where u: "update dt ?s1 = Inr s2" and s': "s' = draw s2"
      by (auto simp: frame_def Let_def ebind_Inr_iff)
    from assms(2) False have n: "\<not> update_scores dt ?s1"
      by (simp add: frame_new_ball_def Let_def)
    show ?thesis
      using update_speed[OF u n] e s' False by (simp add: frame_hits_def Let_def)
  qed
qed

lemma run_frames_speed:
  "run_frames fs s = Inr s' \<Longrightarrow> no_new_ball fs s \<Longrightarrow>
   b_speed (ball s') = b_speed (ball s) * 1.04 ^ rally_hits fs s"
proof (induction fs s rule: run_frames.induct)
  case (1 s)
  then show ?case by simp
next
  case (2 dt evs fs s)
  show ?case
  proof (cases "running s")
    case False
    with "2.prems" show ?thesis by simp
  next
    case True
    with "2.prems" obtain s1 where f: "frame dt evs s = Inr s1" and r: "run_frames fs s1 = Inr s'"
      by (auto simp: ebind_Inr_iff)
    from "2.prems" True f have n: "\<not> frame_new_ball dt evs s" and m: "no_new_ball fs s1"
      by auto
    have "b_speed (ball s') = b_speed (ball s1) * 1.04 ^ rally_hits fs s1"
      using "2.IH"[OF True r m] r by simp
    also have "b_speed (ball s1) = b_speed (ball s) * 1.04 ^ frame_hits dt evs s"
      by (rule frame_speed[OF f n])
    finally show ?thesis using True f by (simp add: power_add)
  qed
qed


lemma no_new_ball_take: "no_new_ball fs s \<Longrightarrow> no_new_ball (take n fs) s"
proof (induction fs s arbitrary: n rule: no_new_ball.induct)
  case (1 s)
  then show ?case by simp
next
  case (2 dt evs fs s)
  then show ?case
    by (cases n) (auto split: sum.splits)
qed

lemma rally_hits_take: "rally_hits (take n fs) s \<le> rally_hits fs s"
proof (induction fs s arbitrary: n rule: rally_hits.induct)
  case (1 s)
  then show ?case by simp
next
  case (2 dt evs fs s)
  then show ?case
    by (cases n) (auto split: sum.splits)
qed

text \<open>
  C3. Over any run of frames that succeeds and in which no new ball is created (no score,
  no start or restart), the speed of the primary ball at the end is its speed at the start
  times \<open>1.04 ^ N\<close>, where \<open>N\<close> counts the paddle hits of the primary ball: each hit
  multiplies the speed by exactly 1.04 and nothing else changes it. Hence the speed never
  decreases along the run (for every prefix of the run), and from a fresh ball, whose speed
  is \<open>BALL_BASE_SPEED\<close>, it is \<open>BALL_BASE_SPEED * 1.04 ^ N\<close>.
\<close>

theorem rally_speed:
  assumes "run_frames fs s = Inr s'" and "no_new_ball fs s"
  shows "b_speed (ball s') = b_speed (ball s) * 1.04 ^ rally_hits fs s \<and>
         (0 \<le> b_speed (ball s) \<longrightarrow>
            b_speed (ball s) \<le> b_speed (ball s') \<and>
            (\<forall>n s1. run_frames (take n fs) s = Inr s1 \<longrightarrow>
               b_speed (ball s) \<le> b_speed (ball s1) \<and> b_speed (ball s1) \<le> b_speed (ball s'))) \<and>
         (ball s = Ball (WIDTH / 2) (HEIGHT / 2) \<longrightarrow>
            b_speed (ball s') = BALL_BASE_SPEED * 1.04 ^ rally_hits fs s)"
proof -
  have eq: "b_speed (ball s') = b_speed (ball s) * 1.04 ^ rally_hits fs s"
    using assms by (rule run_frames_speed)
  have ge: "b_speed (ball s) \<le> b_speed (ball s) * 1.04 ^ k" if "0 \<le> b_speed (ball s)" for k
  proof -
    have "(1::real) \<le> 1.04 ^ k" by (rule one_le_power) simp
    then show ?thesis using that by (simp add: mult_le_cancel_left1)
  qed
  have mono: "b_speed (ball s) \<le> b_speed (ball s1) \<and> b_speed (ball s1) \<le> b_speed (ball s')"
    if p: "0 \<le> b_speed (ball s)" and r: "run_frames (take n fs) s = Inr s1" for n s1
  proof -
    have e1: "b_speed (ball s1) = b_speed (ball s) * 1.04 ^ rally_hits (take n fs) s"
      using r no_new_ball_take[OF assms(2)] by (rule run_frames_speed)
    have "(1.04::real) ^ rally_hits (take n fs) s \<le> 1.04 ^ rally_hits fs s"
      by (rule power_increasing[OF rally_hits_take]) simp
    then have "b_speed (ball s1) \<le> b_speed (ball s')"
      unfolding e1 eq using p by (rule mult_left_mono)
    then show ?thesis using ge[OF p] e1 by simp
  qed
  show ?thesis
    using eq ge mono by (auto simp: Ball_def)
qed

lemma rally_state_advance:
  "\<exists>s1. advance (1 / 100) rally_state = Inr s1 \<and> ball s1 = Ball 50 300 \<and>
        left_paddle s1 = left_paddle rally_state \<and> extra_balls s1 = [] \<and> powerups s1 = []"
  by (simp add: advance_def spawn_tick_def cpu_tick_def paddles_tick_def serve_tick_def
        balls_tick_def rally_state_def centre_hit_state_def centre_hit_ball_def Game_def Let_def
        random_def POWERUP_SPAWN_INTERVAL_def Ball_update_def Ball_def vadd_def vscale_def
        HEIGHT_def BALL_RADIUS_def Paddle_def Paddle_update_def clamp_def PADDLE_HEIGHT_def
        set_centery_def Rect_def py_int_def PADDLE_WIDTH_def)


lemma rally_state_flags:
  "running rally_state" "\<not> menu_active rally_state" "\<not> paused rally_state"
  by (simp_all add: rally_state_def centre_hit_state_def Game_def Let_def random_def)

lemma rally_state_box:
  "colliderect (Ball_rect (Ball 50 300)) (paddle_box (left_paddle rally_state))"
  by (simp add: rally_state_def centre_hit_state_def Game_def Let_def random_def
        Ball_def Ball_rect_def paddle_box_def Paddle_def Rect_def set_center_def py_int_def
        colliderect_def HEIGHT_def WIDTH_def PADDLE_WIDTH_def PADDLE_HEIGHT_def BALL_RADIUS_def)

lemma rally_state_update:
  "\<not> update_scores (1 / 100) rally_state \<and> update_hits (1 / 100) rally_state = 1 \<and>
   (\<exists>s'. update (1 / 100) rally_state = Inr s')"
proof -
  obtain s1 where a: "advance (1 / 100) rally_state = Inr s1" and b: "ball s1 = Ball 50 300"
    and l: "left_paddle s1 = left_paddle rally_state" and x: "extra_balls s1 = []"
    and p: "powerups s1 = []"
    using rally_state_advance by blast
  have st: "struck s1 (ball s1) = Some (left_paddle s1)"
    using rally_state_box by (simp add: struck_def b l)
  let ?b2 = "bounce (left_paddle s1) (ball s1)"
  let ?s2 = "((create_particles 12 (b_pos ?b2) ACCENT s1)\<lparr>shake := 6\<rparr>)\<lparr>ball := ?b2, extra_balls := []\<rparr>"
  have c: "collisions_tick s1 = Inr ?s2"
    by (simp add: collisions_tick_def handle_collisions_struck st x)
  have px: "fst (b_pos ?b2) = 55"
    by (simp add: bounce_def l b rally_state_def centre_hit_state_def Game_def Let_def random_def
          Paddle_def dir_x_def WIDTH_def PADDLE_WIDTH_def Ball_def BALL_RADIUS_def)
  have f: "find out_of_bounds (ball ?s2 # extra_balls ?s2) = None"
    by (simp add: out_of_bounds_def px WIDTH_def)
  have sc: "scoring_tick ?s2 = ?s2"
    using f by (rule scoring_tick_none)
  have pk: "pickups_tick (1 / 100) ?s2 = Inr (?s2\<lparr>powerups := []\<rparr>)"
    by (simp add: pickups_tick_def p)
  have u: "update (1 / 100) rally_state = Inr (check_win (particles_tick (1 / 100) (?s2\<lparr>powerups := []\<rparr>)))"
    by (simp only: update_def a c sc pk ebind_Inr)
  have n: "\<not> update_scores (1 / 100) rally_state"
    using f by (simp only: update_scores_def a c ebind_Inr sum.case) simp
  have h: "update_hits (1 / 100) rally_state = 1"
    by (simp add: update_hits_def a st)
  show ?thesis using u n h by blast
qed

theorem rally_speed_witness:
  "no_new_ball [(1 / 100, [])] rally_state \<and>
   ball rally_state = Ball 50 300 \<and>
   rally_hits [(1 / 100, [])] rally_state = 1 \<and>
   (\<exists>s'. run_frames [(1 / 100, [])] rally_state = Inr s' \<and> b_speed (ball s') = 380 * 1.04 ^ 1)"
proof -
  obtain s2 where u: "update (1 / 100) rally_state = Inr s2"
    using rally_state_update by blast
  have f: "frame (1 / 100) [] rally_state = Inr (draw s2)"
    by (simp add: frame_def rally_state_flags u)
  have r: "run_frames [(1 / 100, [])] rally_state = Inr (draw s2)"
    by (simp add: rally_state_flags f)
  have n: "no_new_ball [(1 / 100, [])] rally_state"
    using rally_state_update by (simp add: rally_state_flags f frame_new_ball_def)
  have h: "rally_hits [(1 / 100, [])] rally_state = 1"
    using rally_state_update by (simp add: rally_state_flags f frame_hits_def)
  have b: "ball rally_state = Ball 50 300"
    by (simp add: rally_state_def centre_hit_ball_def)
  have e: "b_speed (ball (draw s2)) = b_speed (ball rally_state) * 1.04 ^ rally_hits [(1 / 100, [])] rally_state"
    using rally_speed [OF r n] by blast
  have "b_speed (ball (draw s2)) = 380 * 1.04 ^ 1"
    unfolding e h b by (simp add: Ball_def BALL_BASE_SPEED_def)
  then show ?thesis using r n h b by blast
qed

subsection \<open>Winning\<close>

lemma same_session_refl [simp]: "same_session s s"
  by (simp add: same_session_def)

lemma same_session_trans: "same_session s t \<Longrightarrow> same_session t u \<Longrightarrow> same_session s u"
  by (simp add: same_session_def)

lemma create_particles_session [simp]: "same_session s (create_particles n pos c s)"
  by (simp add: same_session_def)

lemma spawn_tick_session: "same_session s (spawn_tick dt s)"
  by (simp add: same_session_def spawn_tick_def spawn_powerup_def Let_def split: prod.splits)

lemma cpu_tick_session: "cpu_tick dt s = Inr s' \<Longrightarrow> same_session s s'"
  by (auto simp: same_session_def cpu_tick_def ebind_Inr_iff split: if_splits)

lemma paddles_tick_session: "same_session s (paddles_tick dt s)"
  by (simp add: same_session_def paddles_tick_def)

lemma serve_tick_session: "serve_tick dt s = Inr s' \<Longrightarrow> same_session s s'"
  by (auto simp: same_session_def serve_tick_def Let_def ebind_Inr_iff
           split: if_splits prod.splits)

lemma balls_tick_session: "same_session s (balls_tick dt s)"
  by (simp add: same_session_def balls_tick_def)

lemma advance_session:
  assumes "advance dt s = Inr s'"
  shows "same_session s s'"
proof -
  from assms obtain s1 s2 where
    a: "cpu_tick dt (spawn_tick dt s) = Inr s1" and
    b: "serve_tick dt (paddles_tick dt s1) = Inr s2" and
    c: "s' = balls_tick dt s2"
    by (auto simp: advance_def ebind_Inr_iff)
  show ?thesis
    using spawn_tick_session[of s dt] cpu_tick_session[OF a] paddles_tick_session[of s1 dt]
      serve_tick_session[OF b] balls_tick_session[of s2 dt] c
    by (simp add: same_session_def)
qed

lemma handle_collisions_session:
  "handle_collisions b s = Inr (hit, b', s') \<Longrightarrow> same_session s s'"
  by (auto simp: handle_collisions_struck same_session_def split: option.splits)

lemma collide_all_session:
  "collide_all bs s = Inr (bs', s') \<Longrightarrow> same_session s s'"
proof (induction bs arbitrary: s bs')
  case Nil
  then show ?case by simp
next
  case (Cons b bs)
  from Cons.prems obtain hit b1 s1 bs1 where
    h: "handle_collisions b s = Inr (hit, b1, s1)" and
    r: "collide_all bs s1 = Inr (bs1, s')"
    by (auto simp: ebind_Inr_iff)
  show ?case
    using handle_collisions_session[OF h] Cons.IH[OF r] by (rule same_session_trans)
qed

lemma collisions_tick_session:
  assumes "collisions_tick s = Inr s'"
  shows "same_session s s'"
proof -
  from assms obtain hit b1 s1 bs1 s2 where
    h: "handle_collisions (ball s) s = Inr (hit, b1, s1)" and
    r: "collide_all (extra_balls s) s1 = Inr (bs1, s2)" and
    e: "s' = s2\<lparr>ball := b1, extra_balls := bs1\<rparr>"
    by (auto simp: collisions_tick_def ebind_Inr_iff)
  show ?thesis
    using handle_collisions_session[OF h] collide_all_session[OF r] e
    by (simp add: same_session_def)
qed

lemma scoring_tick_scores:
  "score_l s \<le> score_l (scoring_tick s)" "score_r s \<le> score_r (scoring_tick s)"
  "menu_active (scoring_tick s) = menu_active s"
  by (simp_all add: scoring_tick_def scoring_loop_find right_scores_fields left_scores_fields
        right_scores_def left_scores_def Let_def split: option.splits)

lemma spawn_extra_session: "spawn_extra s = Inr s' \<Longrightarrow> same_session s s'"
  by (auto simp: same_session_def spawn_extra_def Let_def ebind_Inr_iff split: prod.splits)

lemma apply_powerup_session:
  "apply_powerup pu side s = Inr s' \<Longrightarrow> same_session s s'"
  by (cases "pu_type pu")
     (auto simp: apply_powerup_def set_timer_def ebind_Inr_iff same_session_def
           dest!: spawn_extra_session split: if_splits)

lemma pickups_loop_session:
  "pickups_loop pus dt s = Inr (kept, s') \<Longrightarrow> same_session s s'"
proof (induction pus arbitrary: s kept)
  case Nil
  then show ?case by simp
next
  case (Cons pu pus)
  then show ?case
    by (fastforce simp: Let_def ebind_Inr_iff split: if_splits
          dest: apply_powerup_session intro: same_session_trans)
qed

lemma pickups_tick_session: "pickups_tick dt s = Inr s' \<Longrightarrow> same_session s s'"
  by (auto simp: pickups_tick_def ebind_Inr_iff same_session_def dest!: pickups_loop_session)

lemma particles_tick_session: "same_session s (particles_tick dt s)"
  by (simp add: same_session_def particles_tick_def)

lemma draw_session: "same_session s (draw s)"
  by (simp add: same_session_def draw_def Let_def split: prod.splits)

lemma check_win_scores:
  "score_l (check_win t) = score_l t" "score_r (check_win t) = score_r t"
  "menu_active (check_win t) \<longleftrightarrow> menu_active t \<or> WIN_SCORE \<le> score_l t \<or> WIN_SCORE \<le> score_r t"
  by (auto simp: check_win_def)

lemma update_win:
  assumes "update dt s = Inr s'"
  shows "(menu_active s' \<longleftrightarrow> menu_active s \<or> WIN_SCORE \<le> score_l s' \<or> WIN_SCORE \<le> score_r s')
         \<and> score_l s \<le> score_l s' \<and> score_r s \<le> score_r s'"
proof -
  from assms obtain s1 s2 s3 where
    a: "advance dt s = Inr s1" and
    b: "collisions_tick s1 = Inr s2" and
    c: "pickups_tick dt (scoring_tick s2) = Inr s3" and
    d: "s' = check_win (particles_tick dt s3)"
    by (auto simp: update_def ebind_Inr_iff)
  show ?thesis
    using advance_session[OF a] collisions_tick_session[OF b] pickups_tick_session[OF c]
      scoring_tick_scores[of s2] particles_tick_session[of s3 dt] d
    by (simp add: same_session_def check_win_scores)
qed

lemma handle_event_playing:
  "\<not> menu_active s \<Longrightarrow> \<not> new_ball_event e s \<Longrightarrow> same_session s (handle_event e s)"
  by (cases e)
     (auto simp: new_ball_event_def play_keydown_def movement_keys_def Let_def
        set_timer_def same_session_def)

lemma handle_events_playing:
  "\<not> menu_active s \<Longrightarrow> \<not> events_new_ball evs s \<Longrightarrow> same_session s (handle_events evs s)"
proof (induction evs arbitrary: s)
  case Nil
  then show ?case by simp
next
  case (Cons e evs)
  have 1: "same_session s (handle_event e s)"
    using Cons.prems by (simp add: handle_event_playing)
  then have "\<not> menu_active (handle_event e s)"
    using Cons.prems by (simp add: same_session_def)
  then have "same_session (handle_event e s) (handle_events evs (handle_event e s))"
    using Cons.prems by (intro Cons.IH) simp_all
  with 1 show ?case by (auto intro: same_session_trans)
qed

text \<open>
  C4 (as amended). In a frame that starts in play and whose events hold no restart, the
  session ends in the menu exactly when the game is not paused (so the update runs) and
  either score is at least \<open>WIN_SCORE\<close> at the end of the frame. No score decreases in such
  a frame, and the win check itself leaves both scores as they are.
\<close>

theorem win_transition:
  assumes "\<not> menu_active s" and "\<not> events_new_ball evs s" and "frame dt evs s = Inr s'"
  shows "(menu_active s' \<longleftrightarrow>
            \<not> paused (handle_events evs s) \<and> (WIN_SCORE \<le> score_l s' \<or> WIN_SCORE \<le> score_r s'))
         \<and> score_l s \<le> score_l s' \<and> score_r s \<le> score_r s'
         \<and> score_l (check_win t) = score_l t \<and> score_r (check_win t) = score_r t"
proof -
  let ?s1 = "handle_events evs s"
  have e: "same_session s ?s1"
    using assms(1,2) by (rule handle_events_playing)
  then have m: "\<not> menu_active ?s1" using assms(1) by (simp add: same_session_def)
  show ?thesis
  proof (cases "paused ?s1")
    case True
    with assms(3) m have "s' = draw ?s1" by (simp add: frame_def Let_def)
    then show ?thesis
      using e m True draw_session[of ?s1] by (simp add: same_session_def check_win_scores)
  next
    case False
    with assms(3) m obtain s2 where u: "update dt ?s1 = Inr s2" and s': "s' = draw s2"
      by (auto simp: frame_def Let_def ebind_Inr_iff)
    show ?thesis
      using update_win[OF u] e m False draw_session[of s2] s'
      by (simp add: same_session_def check_win_scores)
  qed
qed


lemma match_point_flags:
  "running match_point_state" "\<not> menu_active match_point_state" "\<not> paused match_point_state"
  by (simp_all add: match_point_state_def rally_state_flags)

lemma match_point_advance:
  "\<exists>s1. advance (1 / 100) match_point_state = Inr s1 \<and> ball s1 = Ball 1060 300 \<and>
        extra_balls s1 = [] \<and> powerups s1 = [] \<and> struck s1 (Ball 1060 300) = None \<and>
        score_l s1 = 6"
  by (simp add: advance_def spawn_tick_def cpu_tick_def paddles_tick_def serve_tick_def
        balls_tick_def match_point_state_def rally_state_def centre_hit_state_def Game_def Let_def
        random_def POWERUP_SPAWN_INTERVAL_def Ball_update_def Ball_def vadd_def vscale_def
        HEIGHT_def WIDTH_def BALL_RADIUS_def Paddle_def Paddle_update_def clamp_def
        PADDLE_HEIGHT_def set_centery_def Rect_def py_int_def PADDLE_WIDTH_def
        struck_def paddle_box_def set_center_def Ball_rect_def colliderect_def)

lemma match_point_update:
  "\<exists>s'. update (1 / 100) match_point_state = Inr s' \<and> score_l s' = 7"
proof -
  obtain s1 where a: "advance (1 / 100) match_point_state = Inr s1" and b: "ball s1 = Ball 1060 300"
    and x: "extra_balls s1 = []" and p: "powerups s1 = []"
    and st: "struck s1 (Ball 1060 300) = None" and sc: "score_l s1 = 6"
    using match_point_advance by blast
  let ?s2 = "s1\<lparr>ball := Ball 1060 300, extra_balls := []\<rparr>"
  have c: "collisions_tick s1 = Inr ?s2"
    by (simp add: collisions_tick_def handle_collisions_struck st x b)
  have s: "scoring_tick ?s2 = left_scores ?s2"
    by (simp add: scoring_tick_def Ball_def WIDTH_def)
  have pk: "pickups_tick (1 / 100) (left_scores ?s2) = Inr ((left_scores ?s2)\<lparr>powerups := []\<rparr>)"
    by (simp add: pickups_tick_def left_scores_def Let_def p)
  have u: "update (1 / 100) match_point_state =
             Inr (check_win (particles_tick (1 / 100) ((left_scores ?s2)\<lparr>powerups := []\<rparr>)))"
    by (simp only: update_def a c s pk ebind_Inr)
  have "score_l (check_win (particles_tick (1 / 100) ((left_scores ?s2)\<lparr>powerups := []\<rparr>))) = 7"
    by (simp add: check_win_scores particles_tick_def left_scores_fields sc)
  with u show ?thesis by blast
qed

theorem win_transition_witness:
  "\<not> menu_active match_point_state \<and> \<not> events_new_ball [] match_point_state \<and>
   (\<exists>s'. frame (1 / 100) [] match_point_state = Inr s' \<and> score_l s' = 7 \<and> menu_active s')"
proof -
  obtain s2 where u: "update (1 / 100) match_point_state = Inr s2" and sc: "score_l s2 = 7"
    using match_point_update by blast
  have f: "frame (1 / 100) [] match_point_state = Inr (draw s2)"
    by (simp add: frame_def match_point_flags u)
  have n: "\<not> events_new_ball [] match_point_state" by simp
  have sd: "score_l (draw s2) = 7"
    using draw_session[of s2] sc by (simp add: same_session_def)
  have "menu_active (draw s2)"
    using win_transition [OF match_point_flags(2) n f] sd match_point_flags(3)
    by (simp add: WIN_SCORE_def)
  then show ?thesis using f sd n match_point_flags(2) by blast
qed

text \<open>
  C4 as stated fails: the restart key takes a game in play to the menu while both scores
  are below \<open>WIN_SCORE\<close>.
\<close>

theorem restart_to_menu_counterexample:
  "\<not> menu_active rally_state \<and>
   frame (1 / 100) [KEYDOWN K_r] rally_state = Inr (handle_event (KEYDOWN K_r) rally_state) \<and>
   menu_active (handle_event (KEYDOWN K_r) rally_state) \<and>
   score_l (handle_event (KEYDOWN K_r) rally_state) < WIN_SCORE \<and>
   score_r (handle_event (KEYDOWN K_r) rally_state) < WIN_SCORE"
  by (simp add: frame_def rally_state_flags play_keydown_def movement_keys_def Let_def
        WIN_SCORE_def)

subsection \<open>The paddle band\<close>

lemma big_paddle_pickup_type [simp]: "pu_type big_paddle_pickup = big_paddle"
  by (simp add: big_paddle_pickup_def PowerUp_def TYPES_def choice_index_def Let_def)

text \<open>
  C5 (as amended). After \<^verbatim>\<open>Paddle.update\<close>, for every velocity and every \<open>dt\<close>, a paddle
  whose current height is at most \<open>HEIGHT - 16\<close> has its y within
  \<open>[h/2 + 8, HEIGHT - h/2 - 8]\<close>; the update keeps the height, and each tick applies it
  to both paddles.
\<close>

theorem paddle_update_band:
  "(pd_h p \<le> HEIGHT - 16 \<longrightarrow>
      pd_h p / 2 + 8 \<le> pd_y (Paddle_update dt p) \<and>
      pd_y (Paddle_update dt p) \<le> HEIGHT - pd_h p / 2 - 8) \<and>
   pd_h (Paddle_update dt p) = pd_h p \<and>
   left_paddle (paddles_tick dt s) = Paddle_update dt (left_paddle s) \<and>
   right_paddle (paddles_tick dt s) = Paddle_update dt (right_paddle s)"
  by (auto simp: Paddle_update_def paddles_tick_def clamp_def Let_def)

theorem paddle_update_band_witness:
  "pd_h moving_paddle \<le> HEIGHT - 16 \<and>
   pd_y (Paddle_update 1 moving_paddle) = 63 \<and>
   pd_h moving_paddle / 2 + 8 \<le> pd_y (Paddle_update 1 moving_paddle) \<and>
   pd_y (Paddle_update 1 moving_paddle) \<le> HEIGHT - pd_h moving_paddle / 2 - 8"
proof -
  have h: "pd_h moving_paddle \<le> HEIGHT - 16"
    by (simp add: moving_paddle_def Paddle_def PADDLE_HEIGHT_def HEIGHT_def)
  have y: "pd_y (Paddle_update 1 moving_paddle) = 63"
    by (simp add: moving_paddle_def Paddle_def Paddle_update_def clamp_def Let_def
          PADDLE_HEIGHT_def HEIGHT_def)
  show ?thesis
    using paddle_update_band [of moving_paddle 1] h y by simp
qed

lemma apply_big_paddle_left:
  "apply_powerup big_paddle_pickup (- 1) s =
     Inr (set_timer 5 6000
       (s\<lparr>left_paddle := set_height (pd_h (left_paddle s) * 1.6) (left_paddle s)\<rparr>))"
  by (simp add: apply_powerup_def POWERUP_DURATION_def py_int_def)

lemma tall_paddle_update:
  assumes "pd_h p > HEIGHT - 16"
  shows "pd_y (Paddle_update dt p) = pd_h p / 2 + 8"
  using assms by (simp add: Paddle_update_def clamp_def Let_def max_def min_def)

lemma four_big_paddles_height:
  "\<not> isl four_big_paddles \<and> pd_h (left_paddle (projr four_big_paddles)) = 720.896"
proof -
  define g where
    "g = (\<lambda>s. set_timer 5 6000
            (s\<lparr>left_paddle := set_height (pd_h (left_paddle s) * 1.6) (left_paddle s)\<rparr>))"
  have step: "apply_powerup big_paddle_pickup (- 1) s = Inr (g s)" for s
    by (simp add: g_def apply_big_paddle_left)
  have h: "pd_h (left_paddle (g s)) = pd_h (left_paddle s) * 1.6" for s
    by (simp add: g_def set_timer_def set_height_def)
  have v: "four_big_paddles = Inr (g (g (g (g (Game (\<lambda>_. 1 / 2, 0))))))"
    by (simp add: four_big_paddles_def step)
  have h0: "pd_h (left_paddle (Game (\<lambda>_. 1 / 2, 0))) = 110"
    by (simp add: Game_def Let_def random_def Paddle_def PADDLE_HEIGHT_def)
  show ?thesis by (simp add: v h h0)
qed

text \<open>
  C5 as stated fails for tall paddles: each big-paddle pickup multiplies the current height
  by 1.6, four of them give 720.896, and the update then puts y at \<open>h/2 + 8\<close>, above
  \<open>HEIGHT - h/2 - 8\<close>.
\<close>

theorem tall_paddle_counterexample:
  "\<not> isl four_big_paddles \<and>
   pd_h (left_paddle (projr four_big_paddles)) = 720.896 \<and>
   pd_y (Paddle_update (1 / 100) (left_paddle (projr four_big_paddles))) >
     HEIGHT - pd_h (left_paddle (projr four_big_paddles)) / 2 - 8"
proof -
  have t: "pd_h (left_paddle (projr four_big_paddles)) > HEIGHT - 16"
    using four_big_paddles_height by (simp add: HEIGHT_def)
  show ?thesis
    using four_big_paddles_height tall_paddle_update[OF t, of "1 / 100"]
    by (simp add: HEIGHT_def)
qed

subsection \<open>Speed boost and slow ball\<close>

lemma speed_boost_pickup_type [simp]: "pu_type speed_boost_pickup = speed_boost"
  by (simp add: speed_boost_pickup_def PowerUp_def TYPES_def choice_index_def Let_def)

lemma slow_ball_pickup_type [simp]: "pu_type slow_ball_pickup = slow_ball"
  by (simp add: slow_ball_pickup_def PowerUp_def TYPES_def choice_index_def Let_def)

lemma apply_speed_boost:
  assumes "pu_type pu = speed_boost"
  shows "apply_powerup pu side s =
           Inr (set_timer 3 6000
             (if side = - 1
              then s\<lparr>left_paddle := (left_paddle s)\<lparr>pd_speed := pd_speed (left_paddle s) * 1.6\<rparr>\<rparr>
              else s\<lparr>right_paddle := (right_paddle s)\<lparr>pd_speed := pd_speed (right_paddle s) * 1.6\<rparr>\<rparr>))"
  using assms by (simp add: apply_powerup_def POWERUP_DURATION_def py_int_def)

text \<open>
  C6 (as amended). Picking up a speed boost succeeds, multiplies the speed cap of the
  owning paddle by 1.6 and leaves the other paddle as it is, and sets the timer of
  \<^verbatim>\<open>USEREVENT+3\<close> to 6000 ms. When that event is handled both caps are \<open>PADDLE_SPEED\<close>
  again and the timer is off. A second pickup before the event sets the same single timer
  to 6000 ms again and multiplies the cap by 1.6 once more.
\<close>

theorem speed_boost_effect:
  assumes "pu_type pu = speed_boost"
  shows "\<exists>s1. apply_powerup pu side s = Inr s1 \<and> timers s1 3 = 6000 \<and>
           (if side = - 1
            then pd_speed (left_paddle s1) = pd_speed (left_paddle s) * 1.6 \<and>
                 right_paddle s1 = right_paddle s
            else pd_speed (right_paddle s1) = pd_speed (right_paddle s) * 1.6 \<and>
                 left_paddle s1 = left_paddle s) \<and>
           pd_speed (left_paddle (handle_event (USEREVENT 3) s1)) = PADDLE_SPEED \<and>
           pd_speed (right_paddle (handle_event (USEREVENT 3) s1)) = PADDLE_SPEED \<and>
           timers (handle_event (USEREVENT 3) s1) 3 = 0 \<and>
           (\<exists>s2. apply_powerup pu side s1 = Inr s2 \<and> timers s2 3 = 6000 \<and>
              (if side = - 1
               then pd_speed (left_paddle s2) = pd_speed (left_paddle s) * 1.6 * 1.6 \<and>
                    right_paddle s2 = right_paddle s
               else pd_speed (right_paddle s2) = pd_speed (right_paddle s) * 1.6 * 1.6 \<and>
                    left_paddle s2 = left_paddle s))"
  by (simp add: apply_speed_boost[OF assms] set_timer_def)

theorem speed_boost_effect_witness:
  "pu_type speed_boost_pickup = speed_boost \<and>
   (\<exists>s1. apply_powerup speed_boost_pickup (- 1) (Game (\<lambda>_. 1 / 2, 0)) = Inr s1 \<and>
      timers s1 3 = 6000 \<and> pd_speed (left_paddle s1) = 672 \<and>
      pd_speed (right_paddle s1) = 420 \<and>
      pd_speed (left_paddle (handle_event (USEREVENT 3) s1)) = 420)"
proof -
  have l: "pd_speed (left_paddle (Game (\<lambda>_. 1 / 2, 0))) = 420"
    and r: "pd_speed (right_paddle (Game (\<lambda>_. 1 / 2, 0))) = 420"
    by (simp_all add: Game_def Let_def random_def Paddle_def PADDLE_SPEED_def)
  from speed_boost_effect [OF speed_boost_pickup_type, of "- 1" "Game (\<lambda>_. 1 / 2, 0)"]
  obtain s1 where
    a: "apply_powerup speed_boost_pickup (- 1) (Game (\<lambda>_. 1 / 2, 0)) = Inr s1" and
    t: "timers s1 3 = 6000" and
    p: "pd_speed (left_paddle s1) = pd_speed (left_paddle (Game (\<lambda>_. 1 / 2, 0))) * 1.6" and
    q: "right_paddle s1 = right_paddle (Game (\<lambda>_. 1 / 2, 0))" and
    e: "pd_speed (left_paddle (handle_event (USEREVENT 3) s1)) = PADDLE_SPEED"
    by auto
  show ?thesis
    using a t p q e l r by (simp add: PADDLE_SPEED_def)
qed

text \<open>
  C6 as stated fails: after two pickups in a row the left cap is \<open>420 * 1.6 * 1.6\<close>, not
  \<open>420 * 1.6\<close>; the multiplier stacks.
\<close>

theorem speed_boost_stacks_counterexample:
  "\<not> isl two_speed_boosts \<and>
   pd_speed (left_paddle (Game (\<lambda>_. 1 / 2, 0))) = 420 \<and>
   pd_speed (left_paddle (projr two_speed_boosts)) = 1075.2 \<and>
   pd_speed (left_paddle (projr two_speed_boosts)) \<noteq> 420 * 1.6"
proof -
  have l: "pd_speed (left_paddle (Game (\<lambda>_. 1 / 2, 0))) = 420"
    by (simp add: Game_def Let_def random_def Paddle_def PADDLE_SPEED_def)
  show ?thesis
    by (simp add: two_speed_boosts_def apply_speed_boost set_timer_def l)
qed

lemma apply_slow_ball:
  assumes "pu_type pu = slow_ball"
  shows "apply_powerup pu side s =
           Inr (set_timer 4 6000 (s\<lparr>ball := (ball s)\<lparr>b_slow_factor := 0.55\<rparr>\<rparr>))"
  using assms by (simp add: apply_powerup_def POWERUP_DURATION_def py_int_def)

lemma Ball_update_x:
  "fst (b_pos (Ball_update dt b)) = fst (b_pos b) + fst (b_vel b) * dt * b_slow_factor b"
  by (simp add: Ball_update_def Let_def vadd_def vscale_def)

text \<open>
  C7 (as amended). Picking up a slow ball succeeds, sets the slow factor of the primary ball
  to 0.55, so that its update moves it by \<open>vel * dt * 0.55\<close>, leaves the extra balls as they
  are, and sets the timer of \<^verbatim>\<open>USEREVENT+4\<close> to 6000 ms. When that event is handled the
  primary ball's factor is 1 again, the extra balls are still untouched, and the timer is
  off.
\<close>

theorem slow_ball_effect:
  assumes "pu_type pu = slow_ball"
  shows "\<exists>s1. apply_powerup pu side s = Inr s1 \<and> timers s1 4 = 6000 \<and>
           b_slow_factor (ball s1) = 0.55 \<and>
           fst (b_pos (Ball_update dt (ball s1))) =
             fst (b_pos (ball s)) + fst (b_vel (ball s)) * dt * 0.55 \<and>
           extra_balls s1 = extra_balls s \<and>
           b_slow_factor (ball (handle_event (USEREVENT 4) s1)) = 1 \<and>
           fst (b_pos (Ball_update dt (ball (handle_event (USEREVENT 4) s1)))) =
             fst (b_pos (ball s)) + fst (b_vel (ball s)) * dt * 1 \<and>
           extra_balls (handle_event (USEREVENT 4) s1) = extra_balls s \<and>
           timers (handle_event (USEREVENT 4) s1) 4 = 0"
  by (simp add: apply_slow_ball[OF assms] set_timer_def Ball_update_x)

theorem slow_ball_effect_witness:
  "pu_type slow_ball_pickup = slow_ball \<and>
   (\<exists>s1. apply_powerup slow_ball_pickup (- 1) three_ball_state = Inr s1 \<and>
      b_slow_factor (ball s1) = 0.55 \<and> extra_balls s1 = extra_balls three_ball_state \<and>
      b_slow_factor (ball (handle_event (USEREVENT 4) s1)) = 1)"
  using slow_ball_effect [OF slow_ball_pickup_type, of "- 1" three_ball_state 1]
  by auto

text \<open>
  C7 as stated fails: with extra balls in flight, the pickup slows the primary ball only;
  the first extra ball keeps the factor 1 and moves by its full \<open>vel * dt\<close>.
\<close>

theorem slow_ball_extras_counterexample:
  "\<not> isl slowed_three_balls \<and>
   b_slow_factor (ball (projr slowed_three_balls)) = 0.55 \<and>
   b_slow_factor (extra_balls (projr slowed_three_balls) ! 0) = 1 \<and>
   fst (b_pos (Ball_update 1 (extra_balls (projr slowed_three_balls) ! 0))) = 500 + 380 * 1"
  by (simp add: slowed_three_balls_def apply_slow_ball set_timer_def three_ball_state_def
        Ball_update_x Ball_def)

subsection \<open>Multi-ball\<close>

lemma multi_ball_pickup_type [simp]: "pu_type multi_ball_pickup = multi_ball"
  by (simp add: multi_ball_pickup_def PowerUp_def TYPES_def choice_index_def Let_def)

lemma choice_direction:
  "[- 1, 1] ! choice_index 2 u = (- 1 :: int) \<or> [- 1, 1] ! choice_index 2 u = (1 :: int)"
proof -
  have m: "min (Suc 0) k = 0 \<or> min (Suc 0) k = Suc 0" for k
    by (cases k) auto
  have "choice_index 2 u = 0 \<or> choice_index 2 u = Suc 0"
    using m[of "nat \<lfloor>u * real 2\<rfloor>"] by (simp add: choice_index_def)
  then show ?thesis by auto
qed

lemma vlength_scaled_unit:
  assumes "d = 1 \<or> d = - 1" and "0 \<le> k"
  shows "vlength (vscale (cos a * d, sin a) k) = k"
proof -
  have dd: "d * d = 1" using assms(1) by auto
  have "(cos a * d * k) * (cos a * d * k) + (sin a * k) * (sin a * k)
          = (k * k) * ((d * d) * (cos a * cos a) + sin a * sin a)"
    by (simp add: algebra_simps)
  also have "\<dots> = k * k"
    by (simp add: dd)
  finally show ?thesis
    using assms(2) by (simp add: vlength_def vscale_def)
qed

lemma spawn_extra_ball_made:
  "\<exists>b2 r. spawn_extra s = Inr (s\<lparr>extra_balls := extra_balls s @ [b2], rand := r\<rparr>) \<and>
          vlength (b_vel b2) = BALL_BASE_SPEED \<and>
          b_speed b2 = b_speed (ball s) * 0.9 \<and> b_pos b2 = b_pos (ball s)"
proof -
  obtain u0 r0 where r0: "random (rand s) = (u0, r0)" by (cases "random (rand s)")
  obtain u1 r1 where r1: "random r0 = (u1, r1)" by (cases "random r0")
  let ?d = "real_of_int ([- 1, 1] ! choice_index 2 u1)"
  let ?a = "uniform (- 0.9) 0.9 u0"
  let ?b2 = "(Ball (fst (b_pos (ball s))) (snd (b_pos (ball s))))
               \<lparr>b_vel := vscale (cos ?a * ?d, sin ?a) BALL_BASE_SPEED,
                b_speed := b_speed (ball s) * 0.9\<rparr>"
  have d: "?d = 1 \<or> ?d = - 1"
    using choice_direction[of u1] by auto
  have n: "normalize (cos ?a * ?d, sin ?a) = Inr (cos ?a * ?d, sin ?a)"
    using d by (rule normalize_unit)
  have l: "vlength (vscale (cos ?a * ?d, sin ?a) BALL_BASE_SPEED) = BALL_BASE_SPEED"
    using d by (rule vlength_scaled_unit) (simp add: BALL_BASE_SPEED_def)
  have e: "spawn_extra s = Inr (s\<lparr>extra_balls := extra_balls s @ [?b2], rand := r1\<rparr>)"
    by (simp add: spawn_extra_def r0 r1 launch_def n Ball_def Let_def)
  have "vlength (b_vel ?b2) = BALL_BASE_SPEED \<and> b_speed ?b2 = b_speed (ball s) * 0.9
          \<and> b_pos ?b2 = b_pos (ball s)"
    using l by (simp add: Ball_def)
  with e show ?thesis by blast
qed

lemma spawn_extra_half:
  assumes "fst (rand s) = (\<lambda>_. 1 / 2)"
  shows "spawn_extra s =
           Inr (s\<lparr>extra_balls := extra_balls s @
                    [(Ball (fst (b_pos (ball s))) (snd (b_pos (ball s))))
                       \<lparr>b_vel := (BALL_BASE_SPEED, 0), b_speed := b_speed (ball s) * 0.9\<rparr>],
                  rand := (\<lambda>_. 1 / 2, Suc (Suc (snd (rand s))))\<rparr>)"
proof -
  have n: "normalize (1, 0) = Inr (1, 0)"
    by (simp add: normalize_def vlength_def)
  have c: "choice_index 2 (1 / 2) = 1"
    by (simp add: choice_index_def)
  show ?thesis
    using assms
    by (simp add: spawn_extra_def Let_def random_def uniform_def c launch_def n vscale_def Ball_def)
qed

text \<open>
  C8, evaluated. Picking up a multi-ball in the fresh game adds exactly two extra balls.
  The primary ball's speed is 380, so C8 asks for a velocity of magnitude 342 for each of
  them; but each is launched before its speed is assigned, with the speed 380 of a new ball:
  the velocity is \<open>(380, 0)\<close> while the speed field is 342.
\<close>

theorem multi_ball_launch_speed:
  "\<not> isl multi_ball_result \<and>
   length (extra_balls (projr multi_ball_result)) = 2 \<and>
   b_speed (ball (projr multi_ball_result)) = 380 \<and>
   b_vel (extra_balls (projr multi_ball_result) ! 0) = (380, 0) \<and>
   b_vel (extra_balls (projr multi_ball_result) ! 1) = (380, 0) \<and>
   b_speed (extra_balls (projr multi_ball_result) ! 0) = 342 \<and>
   b_speed (extra_balls (projr multi_ball_result) ! 1) = 342"
proof -
  have r: "fst (rand (Game (\<lambda>_. 1 / 2, 0))) = (\<lambda>_. 1 / 2)"
    and x: "extra_balls (Game (\<lambda>_. 1 / 2, 0)) = []"
    and b: "b_speed (ball (Game (\<lambda>_. 1 / 2, 0))) = 380"
    by (simp_all add: Game_def Let_def random_def Ball_def BALL_BASE_SPEED_def)
  show ?thesis
    by (simp add: multi_ball_result_def apply_powerup_def spawn_extra_half r x b set_timer_def
          BALL_BASE_SPEED_def)
qed

subsection \<open>The division in the controller\<close>

lemma CPU_update_right_side:
  assumes "pd_x p > WIDTH / 2"
  shows "CPU_update sub c p b dt rs \<noteq> Inl ZeroDivisionError"
proof (cases "fst (b_vel b) > 0")
  case True
  then have "fst (b_vel b) + 1 / 1000000 \<noteq> 0" by simp
  then show ?thesis
    using assms True
    by (simp add: CPU_update_def fdiv_def Let_def ebind_def split: option.splits prod.splits)
next
  case False
  then show ?thesis
    using assms by (simp add: CPU_update_def ebind_def split: prod.splits)
qed

text \<open>
  C9, evaluated. For a controller on a left-side paddle and a ball whose horizontal velocity
  is \<open>-10^-6\<close>, the prediction branch is taken and the guarded denominator
  \<open>vel.x + 10^-6\<close> is zero: \<^verbatim>\<open>CPU.update\<close> raises ZeroDivisionError. (On a right-side
  paddle the denominator is positive, as \<open>CPU_update_right_side\<close> shows.)
\<close>

theorem cpu_left_side_division_by_zero:
  "CPU_update (\<lambda>a b. a - b) (CPU Medium) left_cpu_paddle creeping_ball (1 / 100) (\<lambda>_. 1 / 2, 0)
     = Inl ZeroDivisionError"
  by (simp add: CPU_update_def left_cpu_paddle_def creeping_ball_def Paddle_def Ball_def
        fdiv_def WIDTH_def HEIGHT_def)

subsection \<open>The folding loop\<close>

lemma reflect_in_range:
  "0 \<le> p \<Longrightarrow> p \<le> HEIGHT \<Longrightarrow> reflect sub p = Some p"
  by (subst reflect.simps) simp

lemma reflect_negative:
  "p < 0 \<Longrightarrow> reflect sub p = reflect sub (- p)"
  by (subst reflect.simps) simp

lemma reflect_above:
  "p > HEIGHT \<Longrightarrow> reflect sub p = reflect sub (sub (2 * HEIGHT) p)"
  by (subst reflect.simps) (simp add: HEIGHT_def)

lemma reflect_exact_nonneg:
  "0 \<le> p \<Longrightarrow> p \<le> HEIGHT + real n * (2 * HEIGHT) \<Longrightarrow>
   \<exists>y. reflect (\<lambda>a b. a - b) p = Some y \<and> 0 \<le> y \<and> y \<le> HEIGHT"
proof (induction n arbitrary: p)
  case 0
  then show ?case by (simp add: reflect_in_range)
next
  case (Suc n)
  show ?case
  proof (cases "p \<le> HEIGHT")
    case True
    with Suc.prems show ?thesis by (simp add: reflect_in_range)
  next
    case False
    then have a: "reflect (\<lambda>a b. a - b) p = reflect (\<lambda>a b. a - b) (2 * HEIGHT - p)"
      by (simp add: reflect_above)
    show ?thesis
    proof (cases "0 \<le> 2 * HEIGHT - p")
      case True
      with False have "reflect (\<lambda>a b. a - b) (2 * HEIGHT - p) = Some (2 * HEIGHT - p)"
        by (intro reflect_in_range) auto
      with a True False show ?thesis by auto
    next
      case neg: False
      then have b: "reflect (\<lambda>a b. a - b) (2 * HEIGHT - p) = reflect (\<lambda>a b. a - b) (p - 2 * HEIGHT)"
        by (simp add: reflect_negative)
      have "p - 2 * HEIGHT \<le> HEIGHT + real n * (2 * HEIGHT)"
        using Suc.prems(2) by (simp add: algebra_simps)
      moreover have "0 \<le> p - 2 * HEIGHT" using neg by simp
      ultimately show ?thesis
        using Suc.IH[of "p - 2 * HEIGHT"] a b by simp
    qed
  qed
qed

lemma reflect_exact_total:
  "\<exists>y. reflect (\<lambda>a b. a - b) p = Some y \<and> 0 \<le> y \<and> y \<le> HEIGHT"
proof -
  obtain n where n: "\<bar>p\<bar> \<le> real n * (2 * HEIGHT)"
  proof -
    obtain n :: nat where "\<bar>p\<bar> / (2 * HEIGHT) \<le> real n"
      using real_arch_simple by blast
    then have "\<bar>p\<bar> \<le> real n * (2 * HEIGHT)"
      by (simp add: HEIGHT_def field_simps)
    then show ?thesis using that by blast
  qed
  have h: "0 \<le> HEIGHT" by (simp add: HEIGHT_def)
  show ?thesis
  proof (cases "p < 0")
    case True
    then have "reflect (\<lambda>a b. a - b) p = reflect (\<lambda>a b. a - b) (- p)"
      by (rule reflect_negative)
    moreover have "\<exists>y. reflect (\<lambda>a b. a - b) (- p) = Some y \<and> 0 \<le> y \<and> y \<le> HEIGHT"
      using True n h by (intro reflect_exact_nonneg[of _ n]) auto
    ultimately show ?thesis by simp
  next
    case False
    then show ?thesis
      using n h by (intro reflect_exact_nonneg[of _ n]) auto
  qed
qed

lemma floor_log2_big: "\<lfloor>log 2 (2 ^ 70 - 1200 :: real)\<rfloor> = 69"
proof -
  have h: "(2::real) powr real_of_int 69 \<le> 2 ^ 70 - 1200 \<and>
           (2 ^ 70 - 1200 :: real) < 2 powr real_of_int (69 + 1)"
    by (simp add: powr_realpow)
  have p: "(0::real) < 2 ^ 70 - 1200" by simp
  show ?thesis
    by (rule floor_log_eq_powr_iff[THEN iffD2, OF p _ h]) simp
qed

lemma expo_big: "expo (- (2 ^ 70 - 1200)) = 17"
proof -
  have a: "\<bar>- (2 ^ 70 - 1200) :: real\<bar> = 2 ^ 70 - 1200" by simp
  have "expo (- (2 ^ 70 - 1200)) = max (\<lfloor>log 2 (2 ^ 70 - 1200 :: real)\<rfloor> - 52) (- 1074)"
    by (simp only: expo_def a)
  also have "\<dots> = max (69 - 52) (- 1074)"
    by (simp only: floor_log2_big)
  finally show ?thesis by simp
qed

lemma fl_sub_absorbs: "fl_sub (2 * HEIGHT) huge = - huge"
proof -
  have x: "(2 * HEIGHT - huge :: real) = - (2 ^ 70 - 1200)" by (simp add: HEIGHT_def huge_def)
  have n: "(- (2 ^ 70 - 1200) :: real) \<noteq> 0" by simp
  have q: "(- (2 ^ 70 - 1200) :: real) / 2 powi 17 = - (2 ^ 53) + 75 / 8192"
    by simp
  have f: "\<lfloor>- (2 ^ 53) + 75 / 8192 :: real\<rfloor> = - (2 ^ 53)"
    by (subst floor_eq_iff) simp
  have r: "round_even (- (2 ^ 53) + 75 / 8192) = - (2 ^ 53)"
    by (simp add: round_even_def f Let_def)
  have "fl (- (2 ^ 70 - 1200)) =
          of_int (round_even (- (2 ^ 70 - 1200) / 2 powi 17)) * 2 powi 17"
    using n by (simp only: fl_def expo_big if_False)
  also have "\<dots> = of_int (- (2 ^ 53)) * 2 powi 17"
    by (simp only: q r)
  also have "\<dots> = - huge"
    by (simp add: huge_def)
  finally show ?thesis
    by (simp only: fl_sub_def x)
qed

lemma huge_bounds: "HEIGHT < huge" "\<not> huge < 0" "- huge < 0" "0 < huge"
  by (simp_all add: huge_def HEIGHT_def)

lemma reflect_double_cycle:
  assumes "reflect sub x = Some y"
  shows "\<not> (sub = fl_sub \<and> (x = huge \<or> x = - huge))"
  using assms
proof (rule reflect.raw_induct
    [rotated, where P = "\<lambda>sub x y. \<not> (sub = fl_sub \<and> (x = huge \<or> x = - huge))"])
  fix r :: "(real \<Rightarrow> real \<Rightarrow> real) \<Rightarrow> real \<Rightarrow> real option" and sub p and y :: real
  assume IH: "\<And>sub p y. r sub p = Some y \<Longrightarrow> \<not> (sub = fl_sub \<and> (p = huge \<or> p = - huge))"
  assume eq: "(if p < 0 \<or> HEIGHT < p
               then if p < 0 then r sub (- p)
                    else if HEIGHT < p then r sub (sub (2 * HEIGHT) p) else r sub p
               else Some p) = Some y"
  show "\<not> (sub = fl_sub \<and> (p = huge \<or> p = - huge))"
  proof
    assume a: "sub = fl_sub \<and> (p = huge \<or> p = - huge)"
    then consider "p = huge" | "p = - huge" by blast
    then show False
    proof cases
      case 1
      with a eq have "r fl_sub (fl_sub (2 * HEIGHT) huge) = Some y"
        by (simp add: huge_bounds)
      then have "r fl_sub (- huge) = Some y"
        by (simp only: fl_sub_absorbs)
      from IH[OF this] show False by simp
    next
      case 2
      with a eq have "r fl_sub huge = Some y"
        by (auto simp: huge_bounds)
      from IH[OF this] show False by simp
    qed
  qed
qed

text \<open>
  C10 as stated fails in double precision: for the predicted value \<open>2^70\<close> the
  subtraction \<open>2 * HEIGHT - predicted\<close> rounds to \<open>- 2^70\<close>, the next round negates it back,
  and the loop never returns.
\<close>

theorem reflect_double_diverges: "reflect fl_sub huge = None"
proof (cases "reflect fl_sub huge")
  case None
  then show ?thesis .
next
  case (Some y)
  then show ?thesis using reflect_double_cycle by blast
qed

subsection \<open>The folding loop on doubles\<close>

lemma round_even_int [simp]: "round_even (of_int k) = k"
  by (simp add: round_even_def Let_def)

lemma fl_exact:
  assumes "x / 2 powi expo x = of_int k"
  shows "fl x = x"
proof (cases "x = 0")
  case True
  then show ?thesis by (simp add: fl_def)
next
  case False
  have "of_int k * 2 powi expo x = x"
    using assms by (simp add: field_simps)
  with False show ?thesis
    by (simp add: fl_def assms)
qed

lemma double_multiple:
  assumes "is_double x"
  shows "\<exists>k. x = of_int k * 2 powi expo x"
proof (cases "x = 0")
  case True
  then have "x = of_int 0 * 2 powi expo x" by simp
  then show ?thesis by blast
next
  case False
  with assms have "x = of_int (round_even (x / 2 powi expo x)) * 2 powi expo x"
    by (simp add: is_double_def fl_def)
  then show ?thesis by blast
qed

lemma expo_minus [simp]: "expo (- x) = expo x"
  by (simp add: expo_def)

lemma double_minus:
  assumes "is_double x"
  shows "is_double (- x)"
proof -
  obtain k where k: "x = of_int k * 2 powi expo x"
    using double_multiple[OF assms] by blast
  have "(- x) / 2 powi expo (- x) = of_int (- k)"
    by (subst (1) k) simp
  then show ?thesis
    unfolding is_double_def by (rule fl_exact)
qed

lemma expo_mono:
  assumes "0 < a" and "a \<le> b"
  shows "expo a \<le> expo b"
proof -
  have "log 2 a \<le> log 2 b" using assms by simp
  then have "\<lfloor>log 2 a\<rfloor> \<le> \<lfloor>log 2 b\<rfloor>" by (rule floor_mono)
  then show ?thesis using assms by (simp add: expo_def)
qed

lemma expo_range:
  assumes "HEIGHT < p" and "p < 2 ^ 57"
  shows "- 43 \<le> expo p \<and> expo p \<le> 4"
proof -
  have pos: "0 < p" using assms(1) by (simp add: HEIGHT_def)
  have "9 \<le> log 2 p"
    using assms(1) pos by (subst le_log_iff) (simp_all add: HEIGHT_def)
  then have lo: "9 \<le> \<lfloor>log 2 p\<rfloor>" by (simp add: le_floor_iff)
  have "log 2 p < 57"
    using assms(2) pos by (subst log_less_iff) simp_all
  then have hi: "\<lfloor>log 2 p\<rfloor> < 57" by (simp add: floor_less_iff)
  have ap: "\<bar>p\<bar> = p" using pos by simp
  show ?thesis unfolding expo_def ap using lo hi by linarith
qed

lemma fl_sub_exact:
  assumes d: "is_double p" and lo: "HEIGHT < p" and hi: "p < 2 ^ 57"
  shows "fl_sub (2 * HEIGHT) p = 2 * HEIGHT - p"
proof (cases "2 * HEIGHT - p = 0")
  case True
  then show ?thesis by (simp add: fl_sub_def fl_def)
next
  case False
  let ?q = "2 * HEIGHT - p"
  obtain k where k: "p = of_int k * 2 powi expo p"
    using double_multiple[OF d] by blast
  have r: "- 43 \<le> expo p \<and> expo p \<le> 4"
    using lo hi by (rule expo_range)
  have pos: "0 < p" using lo by (simp add: HEIGHT_def)
  have "\<bar>?q\<bar> \<le> p" using lo by (simp add: HEIGHT_def abs_if)
  moreover have "0 < \<bar>?q\<bar>" using False by simp
  ultimately have "expo \<bar>?q\<bar> \<le> expo p" by (rule expo_mono[rotated])
  then have e: "expo ?q \<le> expo p" by (simp add: expo_def)
  have c: "(1200::real) = of_int (75 * 2 ^ nat (4 - expo p)) * 2 powi expo p"
  proof -
    have "(2::real) ^ nat (4 - expo p) = 2 powi (4 - expo p)"
      using r by (simp add: power_int_nonneg_exp)
    also have "\<dots> = 2 powi 4 / 2 powi expo p"
      by (simp add: power_int_diff)
    finally show ?thesis by simp
  qed
  define m where "m = 75 * 2 ^ nat (4 - expo p) - k"
  have q: "?q = of_int m * 2 powi expo p"
  proof -
    have "?q = 1200 - p" by (simp add: HEIGHT_def)
    also have "\<dots> = of_int (75 * 2 ^ nat (4 - expo p)) * 2 powi expo p - of_int k * 2 powi expo p"
      using c k by simp
    also have "\<dots> = of_int m * 2 powi expo p"
      by (simp add: m_def algebra_simps)
    finally show ?thesis .
  qed
  have "?q / 2 powi expo ?q = of_int m * (2 powi expo p / 2 powi expo ?q)"
    by (subst (1) q) simp
  also have "2 powi expo p / 2 powi expo ?q = (2::real) powi (expo p - expo ?q)"
    by (simp add: power_int_diff)
  also have "\<dots> = 2 ^ nat (expo p - expo ?q)"
    using e by (simp add: power_int_nonneg_exp)
  finally have "?q / 2 powi expo ?q = of_int (m * 2 ^ nat (expo p - expo ?q))"
    by simp
  then have "fl ?q = ?q" by (rule fl_exact)
  then show ?thesis by (simp add: fl_sub_def)
qed

lemma reflect_double_nonneg:
  "is_double p \<Longrightarrow> 0 \<le> p \<Longrightarrow> p < 2 ^ 57 \<Longrightarrow> p \<le> HEIGHT + real n * (2 * HEIGHT) \<Longrightarrow>
   \<exists>y. reflect fl_sub p = Some y \<and> 0 \<le> y \<and> y \<le> HEIGHT"
proof (induction n arbitrary: p)
  case 0
  then show ?case by (simp add: reflect_in_range)
next
  case (Suc n)
  show ?case
  proof (cases "p \<le> HEIGHT")
    case True
    with Suc.prems show ?thesis by (simp add: reflect_in_range)
  next
    case False
    then have ex: "fl_sub (2 * HEIGHT) p = 2 * HEIGHT - p"
      using Suc.prems by (intro fl_sub_exact) auto
    from False have a: "reflect fl_sub p = reflect fl_sub (2 * HEIGHT - p)"
      by (simp add: reflect_above ex)
    have dq: "is_double (2 * HEIGHT - p)"
      using ex by (simp add: is_double_def fl_sub_def)
    show ?thesis
    proof (cases "0 \<le> 2 * HEIGHT - p")
      case True
      with False have "reflect fl_sub (2 * HEIGHT - p) = Some (2 * HEIGHT - p)"
        by (intro reflect_in_range) auto
      with a True False show ?thesis by auto
    next
      case neg: False
      then have b: "reflect fl_sub (2 * HEIGHT - p) = reflect fl_sub (p - 2 * HEIGHT)"
        by (simp add: reflect_negative)
      have "is_double (- (2 * HEIGHT - p))" using dq by (rule double_minus)
      then have d': "is_double (p - 2 * HEIGHT)" by simp
      have "p - 2 * HEIGHT \<le> HEIGHT + real n * (2 * HEIGHT)"
        using Suc.prems(4) by (simp add: algebra_simps)
      moreover have "0 \<le> p - 2 * HEIGHT" using neg by simp
      moreover have "p - 2 * HEIGHT < 2 ^ 57" using Suc.prems(3) by (simp add: HEIGHT_def)
      ultimately show ?thesis
        using Suc.IH[of "p - 2 * HEIGHT"] d' a b by simp
    qed
  qed
qed

lemma reflect_double_total:
  assumes "is_double p" and "\<bar>p\<bar> < 2 ^ 57"
  shows "\<exists>y. reflect fl_sub p = Some y \<and> 0 \<le> y \<and> y \<le> HEIGHT"
proof -
  obtain n where n: "\<bar>p\<bar> \<le> real n * (2 * HEIGHT)"
  proof -
    obtain n :: nat where "\<bar>p\<bar> / (2 * HEIGHT) \<le> real n"
      using real_arch_simple by blast
    then have "\<bar>p\<bar> \<le> real n * (2 * HEIGHT)"
      by (simp add: HEIGHT_def field_simps)
    then show ?thesis using that by blast
  qed
  have h: "0 \<le> HEIGHT" by (simp add: HEIGHT_def)
  show ?thesis
  proof (cases "p < 0")
    case True
    then have "reflect fl_sub p = reflect fl_sub (- p)"
      by (rule reflect_negative)
    moreover have "\<exists>y. reflect fl_sub (- p) = Some y \<and> 0 \<le> y \<and> y \<le> HEIGHT"
      using True n h assms double_minus[OF assms(1)]
      by (intro reflect_double_nonneg[of _ n]) auto
    ultimately show ?thesis by simp
  next
    case False
    then show ?thesis
      using n h assms by (intro reflect_double_nonneg[of _ n]) auto
  qed
qed


text \<open>
  C10 (as amended). The folding loop terminates and yields a value within \<open>[0, HEIGHT]\<close>
  for every predicted y, of any magnitude and sign, when the subtraction is exact; and in
  double precision it does so for every double of magnitude below \<open>2^57\<close>, where
  \<open>2 * HEIGHT - predicted\<close> is computed without rounding.
\<close>

theorem reflect_terminates:
  "(\<exists>y. reflect (\<lambda>a b. a - b) p = Some y \<and> 0 \<le> y \<and> y \<le> HEIGHT) \<and>
   (is_double p \<longrightarrow> \<bar>p\<bar> < 2 ^ 57 \<longrightarrow>
      (\<exists>y. reflect fl_sub p = Some y \<and> 0 \<le> y \<and> y \<le> HEIGHT))"
  using reflect_exact_total[of p] reflect_double_total[of p] by blast

lemma far_prediction_double: "is_double far_prediction"
proof -
  have h: "(2::real) powr real_of_int 11 \<le> 3000 \<and> (3000::real) < 2 powr real_of_int (11 + 1)"
    by (simp add: powr_realpow)
  have p: "(0::real) < 3000" by simp
  have f: "\<lfloor>log 2 (3000::real)\<rfloor> = 11"
    by (rule floor_log_eq_powr_iff[THEN iffD2, OF p _ h]) simp
  have a: "\<bar>far_prediction\<bar> = 3000" by (simp add: far_prediction_def)
  have "expo far_prediction = max (\<lfloor>log 2 (3000::real)\<rfloor> - 52) (- 1074)"
    by (simp only: expo_def a)
  then have e: "expo far_prediction = - 41"
    by (simp add: f)
  have "far_prediction / 2 powi expo far_prediction = of_int (- 3000 * 2 ^ 41)"
    unfolding e by (simp add: far_prediction_def power_int_minus field_simps)
  then show ?thesis
    unfolding is_double_def by (rule fl_exact)
qed

theorem reflect_terminates_witness:
  "is_double far_prediction \<and> \<bar>far_prediction\<bar> < 2 ^ 57 \<and>
   (\<exists>y. reflect fl_sub far_prediction = Some y \<and> 0 \<le> y \<and> y \<le> HEIGHT)"
proof -
  have b: "\<bar>far_prediction\<bar> < 2 ^ 57" by (simp add: far_prediction_def)
  show ?thesis
    using reflect_terminates [of far_prediction] far_prediction_double b by blast
qed

end
